theory Spec2Isabelle
  imports Complex_Main "HOL-Library.Multiset"
begin

section \<open>Data model\<close>

text \<open>
  The repository holds several versions of one React application. Three of them are
  modelled here:
  \<^item> the first \<open>LastMileDemo\<close>, which clusters simulated ride requests with
    \<open>simulateRLOptimization\<close>, comparing the destinations' \<open>region\<close>;
  \<^item> the \<open>LastMileDemo\<close> with the live map and the polled route feed, whose
    \<open>simulateRLOptimization\<close> compares \<open>region || type\<close> (its definitions carry the
    suffix \<open>live\<close>);
  \<^item> \<open>LastMileAI\<close>, the map application, which clusters the accumulated requests by
    distance and builds routes inside \<open>submitRequest\<close>.
  The fourth version, a form with two drop-down lists that groups requests by
  \<open>destType\<close> in \<open>optimizeRoutes\<close>, is not modelled.

  JavaScript numbers are modelled as follows: passenger counts and counters, which the
  code only ever adds and compares, are \<open>int\<close>; coordinates, distances and emission figures
  are exact \<open>real\<close>s, so rounding error, \<open>NaN\<close> and \<open>Infinity\<close> of IEEE doubles are outside
  the model. A string produced by \<open>toFixed(1)\<close> is represented by the number it denotes.
  Timers are outside the model: every function is modelled as one uninterrupted call, and
  the callbacks that timers run (the request generator, the delayed optimisation) as
  events that may occur at any moment; the feed poll is not modelled.
\<close>

text \<open>
  A catalogue entry \<open>{ id, name, lat, lng, type, region? }\<close>. Only the villages of the demo
  catalogue carry a \<open>region\<close>; an absent property reads as \<open>undefined\<close>, here \<open>None\<close>.
\<close>

record location =
  loc_id :: string
  loc_name :: string
  lat :: real
  lng :: real
  loc_type :: string
  region :: "string option"

datatype status = Pending | Assigned

text \<open>The request object of \<open>generateRideRequest\<close> and \<open>handleRequestRide\<close> (demo).\<close>

record ride_request =
  rr_id :: string
  rr_origin :: location
  rr_destination :: location
  rr_passengers :: int
  rr_timestamp :: nat
  rr_status :: status
  rr_eta :: int

text \<open>The object pushed onto \<open>clusters\<close> by \<open>simulateRLOptimization\<close>.\<close>

record cluster =
  cl_id :: string
  cl_requests :: "ride_request list"
  totalPassengers :: int
  estimatedSavings :: int
  co2Saved :: real
  cl_route :: "string list"

text \<open>
  \<open>Math.random()\<close> is an input of the model. \<open>rand_id k\<close> is the string
  \<open>Math.random().toString(36).substr(2, 9)\<close> drawn for the \<open>k\<close>-th object built in a run,
  \<open>rand_unit k\<close> the number in \<open>[0, 1)\<close> drawn for it.
\<close>

record random_source =
  rand_id :: "nat \<Rightarrow> string"
  rand_unit :: "nat \<Rightarrow> real"

section \<open>Number formatting\<close>

text \<open>
  \<open>x.toFixed(1)\<close>: the multiple of one tenth nearest to \<open>x\<close>, the larger one on a tie, the
  sign handled separately. \<open>Math.round(x)\<close>: the nearest integer, halves upwards.
\<close>

definition toFixed1 :: "real \<Rightarrow> real" where
  "toFixed1 x = (if x < 0 then - (of_int \<lfloor>(- x) * 10 + 1 / 2\<rfloor> / 10)
                 else of_int \<lfloor>x * 10 + 1 / 2\<rfloor> / 10)"

definition js_round :: "real \<Rightarrow> int" where
  "js_round x = \<lfloor>x + 1 / 2\<rfloor>"

section \<open>LastMileDemo, first version: simulateRLOptimization\<close>

text \<open>
  The inner \<open>requests.forEach(other => ...)\<close>: a request joins the open cluster when it is
  not yet processed, its destination's \<open>region\<close> is strictly equal to the seed's, and the
  cluster holds fewer than four requests.
\<close>

fun sim_inner ::
  "ride_request \<Rightarrow> ride_request list \<Rightarrow> string set \<times> ride_request list
     \<Rightarrow> string set \<times> ride_request list" where
  "sim_inner req [] (processed, cluster) = (processed, cluster)"
| "sim_inner req (other # rest) (processed, cluster) =
     (if rr_id other \<notin> processed
         \<and> region (rr_destination other) = region (rr_destination req)
         \<and> length cluster < 4
      then sim_inner req rest (insert (rr_id other) processed, cluster @ [other])
      else sim_inner req rest (processed, cluster))"

text \<open>The object literal pushed for a finished cluster; \<open>k\<close> counts the clusters before it.\<close>

definition make_cluster :: "random_source \<Rightarrow> nat \<Rightarrow> ride_request list \<Rightarrow> cluster" where
  "make_cluster rnd k cluster =
     \<lparr> cl_id = rand_id rnd k,
       cl_requests = cluster,
       totalPassengers = foldl (\<lambda>sum r. sum + rr_passengers r) 0 cluster,
       estimatedSavings = \<lfloor>real (length cluster) * 15 + rand_unit rnd k * 10\<rfloor>,
       co2Saved = toFixed1 (real (length cluster) * 2.5),
       cl_route = map (\<lambda>r. loc_name (rr_destination r)) cluster \<rparr>"

text \<open>The outer \<open>requests.forEach(req => ...)\<close>, with \<open>processed\<close> and \<open>clusters\<close> as state.\<close>

fun sim_outer ::
  "random_source \<Rightarrow> ride_request list \<Rightarrow> ride_request list \<Rightarrow> string set \<times> cluster list
     \<Rightarrow> string set \<times> cluster list" where
  "sim_outer rnd requests [] (processed, clusters) = (processed, clusters)"
| "sim_outer rnd requests (req # rest) (processed, clusters) =
     (if rr_id req \<in> processed then sim_outer rnd requests rest (processed, clusters)
      else (case sim_inner req requests (insert (rr_id req) processed, [req]) of
              (processed', cluster) \<Rightarrow>
                sim_outer rnd requests rest
                  (processed',
                   if length cluster > 0
                   then clusters @ [make_cluster rnd (length clusters) cluster]
                   else clusters)))"

definition simulateRLOptimization :: "random_source \<Rightarrow> ride_request list \<Rightarrow> cluster list" where
  "simulateRLOptimization rnd requests = snd (sim_outer rnd requests requests ({}, []))"

section \<open>LastMileDemo with the live map: simulateRLOptimization\<close>

text \<open>
  A JavaScript \<open>Map\<close> as an association list in insertion order: \<open>set\<close> on a present key
  replaces the value in place, on a new key appends.
\<close>

fun map_set :: "(string \<times> 'a) list \<Rightarrow> string \<Rightarrow> 'a \<Rightarrow> (string \<times> 'a) list" where
  "map_set [] k v = [(k, v)]"
| "map_set ((k', v') # m) k v =
     (if k' = k then (k, v) # m else (k', v') # map_set m k v)"

definition new_Map :: "(string \<times> 'a) list \<Rightarrow> (string \<times> 'a) list" where
  "new_Map entries = foldl (\<lambda>m (k, v). map_set m k v) [] entries"

definition map_values :: "(string \<times> 'a) list \<Rightarrow> 'a list" where
  "map_values m = map snd m"

text \<open>
  \<open>destination.region || destination.type\<close>: the region unless it is absent or the empty
  string, else the type.
\<close>

definition region_or_type :: "location \<Rightarrow> string" where
  "region_or_type loc =
     (case region loc of
        None \<Rightarrow> loc_type loc
      | Some r \<Rightarrow> if r = [] then loc_type loc else r)"

fun live_inner ::
  "ride_request \<Rightarrow> ride_request list \<Rightarrow> string set \<times> ride_request list
     \<Rightarrow> string set \<times> ride_request list" where
  "live_inner req [] (processed, cluster) = (processed, cluster)"
| "live_inner req (other # rest) (processed, cluster) =
     (let reqRegion = region_or_type (rr_destination req)
      in if rr_id other \<notin> processed
            \<and> region_or_type (rr_destination other) = reqRegion
            \<and> length cluster < 4
         then live_inner req rest (insert (rr_id other) processed, cluster @ [other])
         else live_inner req rest (processed, cluster))"

text \<open>
  The object pushed onto \<open>clusters\<close>. \<open>vehicleIndex\<close> is the number printed, padded to
  three digits, after \<open>LM-\<close> in \<open>vehicleId\<close>.
\<close>

record live_cluster =
  lc_id :: string
  vehicleIndex :: nat
  lc_requests :: "ride_request list"
  lc_totalPassengers :: int
  lc_estimatedSavings :: int
  lc_co2Saved :: real
  primaryDestinationId :: string
  destinationIds :: "string list"
  routeStops :: "location list"
  lc_route :: "string list"

text \<open>
  The counting \<open>Map\<close> built by \<open>cluster.forEach\<close>, and the key of its first entry after
  the (stable) sort by descending count.
\<close>

definition count_by :: "string list \<Rightarrow> (string \<times> int) list" where
  "count_by ids =
     foldl (\<lambda>m k. map_set m k ((case map_of m k of Some n \<Rightarrow> n | None \<Rightarrow> 0) + 1)) [] ids"

definition most_frequent :: "string list \<Rightarrow> string" where
  "most_frequent ids = fst (hd (sort_key (\<lambda>e. - snd e) (count_by ids)))"

definition make_live_cluster :: "random_source \<Rightarrow> nat \<Rightarrow> ride_request list \<Rightarrow> live_cluster" where
  "make_live_cluster rnd k cluster =
     (let primaryDestinationId = most_frequent (map (\<lambda>r. loc_id (rr_destination r)) cluster);
          primaryOriginId = most_frequent (map (\<lambda>r. loc_id (rr_origin r)) cluster);
          primaryOrigin = (case find (\<lambda>r. loc_id (rr_origin r) = primaryOriginId) cluster of
                             Some r \<Rightarrow> rr_origin r
                           | None \<Rightarrow> rr_origin (hd cluster));
          uniqueDestinations =
            map_values (new_Map (map (\<lambda>r. (loc_id (rr_destination r), rr_destination r)) cluster));
          destinationIds = map loc_id uniqueDestinations
      in \<lparr> lc_id = rand_id rnd k,
           vehicleIndex = k + 1,
           lc_requests = cluster,
           lc_totalPassengers = foldl (\<lambda>sum r. sum + rr_passengers r) 0 cluster,
           lc_estimatedSavings = \<lfloor>real (length cluster) * 15 + rand_unit rnd k * 10\<rfloor>,
           lc_co2Saved = toFixed1 (real (length cluster) * 2.5),
           primaryDestinationId = primaryDestinationId,
           destinationIds = destinationIds,
           routeStops = primaryOrigin # uniqueDestinations,
           lc_route = map loc_name uniqueDestinations \<rparr>)"

fun live_outer ::
  "random_source \<Rightarrow> ride_request list \<Rightarrow> ride_request list \<Rightarrow> string set \<times> live_cluster list
     \<Rightarrow> string set \<times> live_cluster list" where
  "live_outer rnd requests [] (processed, clusters) = (processed, clusters)"
| "live_outer rnd requests (req # rest) (processed, clusters) =
     (if rr_id req \<in> processed then live_outer rnd requests rest (processed, clusters)
      else (case live_inner req requests (insert (rr_id req) processed, [req]) of
              (processed', cluster) \<Rightarrow>
                live_outer rnd requests rest
                  (processed',
                   if length cluster > 0
                   then clusters @ [make_live_cluster rnd (length clusters) cluster]
                   else clusters)))"

definition simulateRLOptimization_live ::
  "random_source \<Rightarrow> ride_request list \<Rightarrow> live_cluster list" where
  "simulateRLOptimization_live rnd requests = snd (live_outer rnd requests requests ({}, []))"

section \<open>LastMileAI: catalogue, vehicles and geometry\<close>

record vehicle =
  v_name :: string
  capacity :: int
  co2 :: real

text \<open>The table \<open>VEHICLES\<close> (icon and colour are presentation only).\<close>

definition VEHICLES_small :: vehicle where
  "VEHICLES_small = \<lparr> v_name = ''Mini Van'', capacity = 4, co2 = 0.15 \<rparr>"

definition VEHICLES_medium :: vehicle where
  "VEHICLES_medium = \<lparr> v_name = ''Minibus'', capacity = 8, co2 = 0.22 \<rparr>"

definition VEHICLES_large :: vehicle where
  "VEHICLES_large = \<lparr> v_name = ''Bus'', capacity = 20, co2 = 0.30 \<rparr>"

definition selectVehicle :: "int \<Rightarrow> vehicle" where
  "selectVehicle passengers =
     (if passengers \<le> 4 then VEHICLES_small
      else if passengers \<le> 8 then VEHICLES_medium
      else VEHICLES_large)"

text \<open>\<open>Math.atan2(y, x)\<close> on the reals.\<close>

definition atan2 :: "real \<Rightarrow> real \<Rightarrow> real" where
  "atan2 y x =
     (if 0 < x then arctan (y / x)
      else if x < 0 then (if 0 \<le> y then arctan (y / x) + pi else arctan (y / x) - pi)
      else if 0 < y then pi / 2
      else if y < 0 then - (pi / 2)
      else 0)"

text \<open>The haversine great-circle distance in kilometres.\<close>

definition getDistance :: "real \<Rightarrow> real \<Rightarrow> real \<Rightarrow> real \<Rightarrow> real" where
  "getDistance lat1 lng1 lat2 lng2 =
     (let R = 6371;
          dLat = (lat2 - lat1) * pi / 180;
          dLng = (lng2 - lng1) * pi / 180;
          a = (sin (dLat / 2))\<^sup>2
                + cos (lat1 * pi / 180) * cos (lat2 * pi / 180) * (sin (dLng / 2))\<^sup>2
      in R * 2 * atan2 (sqrt a) (sqrt (1 - a)))"

text \<open>The request object built by \<open>submitRequest\<close>; it has no status.\<close>

record request =
  req_id :: string
  pickup :: location
  destination :: location
  passengers :: int
  req_time :: string

section \<open>LastMileAI: the clustering inside submitRequest\<close>

text \<open>
  The inner \<open>newRequests.forEach(other => ...)\<close>: a request joins the open cluster when it
  is not yet used and its destination lies less than 20 km from the seed's destination.
\<close>

fun submit_inner ::
  "request \<Rightarrow> request list \<Rightarrow> string set \<times> request list \<Rightarrow> string set \<times> request list" where
  "submit_inner req [] (used, cluster) = (used, cluster)"
| "submit_inner req (other # rest) (used, cluster) =
     (if req_id other \<in> used then submit_inner req rest (used, cluster)
      else (let dist = getDistance (lat (destination req)) (lng (destination req))
                                   (lat (destination other)) (lng (destination other))
            in if dist < 20
               then submit_inner req rest (insert (req_id other) used, cluster @ [other])
               else submit_inner req rest (used, cluster)))"

fun submit_outer ::
  "request list \<Rightarrow> request list \<Rightarrow> string set \<times> request list list
     \<Rightarrow> string set \<times> request list list" where
  "submit_outer newRequests [] (used, clusters) = (used, clusters)"
| "submit_outer newRequests (req # rest) (used, clusters) =
     (if req_id req \<in> used then submit_outer newRequests rest (used, clusters)
      else (case submit_inner req newRequests (insert (req_id req) used, [req]) of
              (used', cluster) \<Rightarrow> submit_outer newRequests rest (used', clusters @ [cluster])))"

definition submit_clusters :: "request list \<Rightarrow> request list list" where
  "submit_clusters newRequests = snd (submit_outer newRequests newRequests ({}, []))"

section \<open>LastMileAI: route building\<close>

text \<open>
  The routing provider is an input of the model: it maps the \<open>(lng, lat)\<close> pairs put into
  the request URL to an outcome. \<open>Throws\<close> stands for every way the \<open>try\<close> block can raise
  (network error, unparsable body, a payload whose fields cannot be read); \<open>Json code rs\<close> is
  a parsed payload with its \<open>code\<close> and its \<open>routes\<close> array (empty when absent).
\<close>

record osrm_route =
  or_coordinates :: "(real \<times> real) list"
  or_distance :: real
  or_duration :: real

datatype osrm_response = Throws | Json string "osrm_route list"

type_synonym provider = "(real \<times> real) list \<Rightarrow> osrm_response"

text \<open>The object returned by \<open>fetchRoute\<close> on success.\<close>

record route_data =
  rd_geometry :: "(real \<times> real) list"
  rd_distance :: real
  rd_duration :: real

definition fetchRoute :: "provider \<Rightarrow> location list \<Rightarrow> route_data option" where
  "fetchRoute osrm stops =
     (if length stops < 2 then None
      else (let coords = map (\<lambda>s. (lng s, lat s)) stops
            in case osrm coords of
                 Throws \<Rightarrow> None
               | Json code routes \<Rightarrow>
                   if code = ''Ok'' \<and> routes \<noteq> []
                   then Some \<lparr> rd_geometry = or_coordinates (hd routes),
                               rd_distance = or_distance (hd routes) / 1000,
                               rd_duration = or_duration (hd routes) / 60 \<rparr>
                   else None))"

text \<open>The constant \<open>stops\<close> of the route callback: unique pickups, then unique destinations.\<close>

definition route_stops :: "request list \<Rightarrow> location list" where
  "route_stops cluster =
     (let pickups = map_values (new_Map (map (\<lambda>r. (loc_id (pickup r), pickup r)) cluster));
          dests = map_values (new_Map (map (\<lambda>r. (loc_id (destination r), destination r)) cluster))
      in pickups @ dests)"

text \<open>
  \<open>stops.reduce((sum, s, i) => i === 0 ? 0 : sum + getDistance(stops[i-1], s), 0)\<close>, the
  reduction running over the indices of \<open>stops\<close>.
\<close>

definition straight_line_distance :: "location list \<Rightarrow> real" where
  "straight_line_distance stops =
     foldl (\<lambda>sum i. if i = 0 then 0
                     else sum + getDistance (lat (stops ! (i - 1))) (lng (stops ! (i - 1)))
                                            (lat (stops ! i)) (lng (stops ! i)))
           0 [0..<length stops]"

text \<open>The constant \<open>dist\<close> of the route callback.\<close>

definition route_dist :: "route_data option \<Rightarrow> location list \<Rightarrow> real" where
  "route_dist routeData stops =
     (case routeData of Some rd \<Rightarrow> rd_distance rd | None \<Rightarrow> straight_line_distance stops)"

record route =
  route_id :: string
  stops :: "location list"
  r_vehicle :: vehicle
  r_passengers :: int
  r_distance :: real
  r_time :: int
  r_co2 :: real
  r_geometry :: "(real \<times> real) list option"
  r_requests :: "request list"

text \<open>The callback of \<open>clusters.map\<close>; \<open>rid\<close> is the identifier drawn for the route.\<close>

definition build_route :: "provider \<Rightarrow> string \<Rightarrow> request list \<Rightarrow> route" where
  "build_route osrm rid cluster =
     (let totalPass = foldl (\<lambda>sum r. sum + passengers r) 0 cluster;
          vehicle = selectVehicle totalPass;
          stops = route_stops cluster;
          routeData = fetchRoute osrm stops;
          dist = route_dist routeData stops;
          carCO2 = of_int totalPass * dist * 0.21;
          busCO2 = dist * co2 vehicle;
          saved = max 0 (carCO2 - busCO2)
      in \<lparr> route_id = rid,
           stops = stops,
           r_vehicle = vehicle,
           r_passengers = totalPass,
           r_distance = (case routeData of Some rd \<Rightarrow> toFixed1 (rd_distance rd)
                                         | None \<Rightarrow> toFixed1 dist),
           r_time = (case routeData of Some rd \<Rightarrow> js_round (rd_duration rd)
                                     | None \<Rightarrow> js_round (dist / 45 * 60)),
           r_co2 = toFixed1 saved,
           r_geometry = (case routeData of Some rd \<Rightarrow> Some (rd_geometry rd) | None \<Rightarrow> None),
           r_requests = cluster \<rparr>)"

definition build_routes :: "provider \<Rightarrow> (nat \<Rightarrow> string) \<Rightarrow> request list list \<Rightarrow> route list" where
  "build_routes osrm ids clusters =
     map (\<lambda>(k, cluster). build_route osrm (ids k) cluster) (enumerate 0 clusters)"

section \<open>LastMileAI: component state and handlers\<close>

record app_state =
  st_pickup :: "location option"
  st_destination :: "location option"
  st_passengers :: int
  st_routes :: "route list"
  st_requests :: "request list"
  stats_total :: int
  stats_co2 :: real
  isLoading :: bool

definition initial_state :: app_state where
  "initial_state =
     \<lparr> st_pickup = None, st_destination = None, st_passengers = 1, st_routes = [],
       st_requests = [], stats_total = 0, stats_co2 = 0, isLoading = False \<rparr>"

text \<open>What one call of \<open>submitRequest\<close> takes from its environment.\<close>

record submit_env =
  env_request_id :: string
  env_time :: string
  env_route_id :: "nat \<Rightarrow> string"
  env_osrm :: provider

definition submitRequest :: "submit_env \<Rightarrow> app_state \<Rightarrow> app_state" where
  "submitRequest env s =
     (case st_pickup s of
        None \<Rightarrow> s
      | Some p \<Rightarrow>
          (case st_destination s of
             None \<Rightarrow> s
           | Some d \<Rightarrow>
               (let newRequest = \<lparr> req_id = env_request_id env, pickup = p, destination = d,
                                   passengers = st_passengers s, req_time = env_time env \<rparr>;
                    newRequests = st_requests s @ [newRequest];
                    clusters = submit_clusters newRequests;
                    newRoutes = build_routes (env_osrm env) (env_route_id env) clusters
                in s \<lparr> st_requests := newRequests,
                       stats_total := stats_total s + 1,
                       st_routes := newRoutes,
                       stats_co2 := stats_co2 s + foldl (\<lambda>sum r. sum + r_co2 r) 0 newRoutes,
                       st_pickup := None,
                       st_destination := None,
                       st_passengers := 1,
                       isLoading := False \<rparr>)))"

definition clearAll :: "app_state \<Rightarrow> app_state" where
  "clearAll s =
     s \<lparr> st_routes := [], st_requests := [], st_pickup := None, st_destination := None,
         stats_total := 0, stats_co2 := 0 \<rparr>"

text \<open>The click handler installed on every catalogue marker.\<close>

definition marker_click :: "location \<Rightarrow> app_state \<Rightarrow> app_state" where
  "marker_click loc s =
     (case st_pickup s of
        None \<Rightarrow> s \<lparr> st_pickup := Some loc \<rparr>
      | Some p \<Rightarrow>
          if st_destination s = None \<and> loc_id loc \<noteq> loc_id p then s \<lparr> st_destination := Some loc \<rparr>
          else if loc_id loc \<noteq> loc_id p then s \<lparr> st_destination := Some loc \<rparr>
          else s)"

definition decrement_passengers :: "app_state \<Rightarrow> app_state" where
  "decrement_passengers s = s \<lparr> st_passengers := max 1 (st_passengers s - 1) \<rparr>"

definition increment_passengers :: "app_state \<Rightarrow> app_state" where
  "increment_passengers s = s \<lparr> st_passengers := min 20 (st_passengers s + 1) \<rparr>"

definition clear_selection :: "app_state \<Rightarrow> app_state" where
  "clear_selection s = s \<lparr> st_pickup := None, st_destination := None \<rparr>"

text \<open>Everything a user can do to the component, and the state after a sequence of it.\<close>

datatype event =
    MarkerClick location
  | Decrement
  | Increment
  | Submit submit_env
  | ClearSelection
  | ClearAll

fun step :: "event \<Rightarrow> app_state \<Rightarrow> app_state" where
  "step (MarkerClick loc) s = marker_click loc s"
| "step Decrement s = decrement_passengers s"
| "step Increment s = increment_passengers s"
| "step (Submit env) s = submitRequest env s"
| "step ClearSelection s = clear_selection s"
| "step ClearAll s = clearAll s"

definition run :: "event list \<Rightarrow> app_state" where
  "run events = foldl (\<lambda>s e. step e s) initial_state events"

text \<open>Whether an event is a press of the submit button.\<close>

fun is_submit :: "event \<Rightarrow> bool" where
  "is_submit (Submit env) \<longleftrightarrow> True"
| "is_submit (MarkerClick loc) \<longleftrightarrow> False"
| "is_submit Decrement \<longleftrightarrow> False"
| "is_submit Increment \<longleftrightarrow> False"
| "is_submit ClearSelection \<longleftrightarrow> False"
| "is_submit ClearAll \<longleftrightarrow> False"

section \<open>LastMileDemo: the catalogue and the request generator\<close>

text \<open>\<open>CYPRUS_LOCATIONS\<close>, the same in both versions of the demo.\<close>

definition demo_nicosia :: location where
  "demo_nicosia = \<lparr> loc_id = ''nicosia'', loc_name = ''Nicosia'', lat = 35.1856, lng = 33.3823,
                    loc_type = ''city'', region = None \<rparr>"

definition demo_limassol :: location where
  "demo_limassol = \<lparr> loc_id = ''limassol'', loc_name = ''Limassol'', lat = 34.6786, lng = 33.0413,
                     loc_type = ''city'', region = None \<rparr>"

definition demo_larnaca :: location where
  "demo_larnaca = \<lparr> loc_id = ''larnaca'', loc_name = ''Larnaca'', lat = 34.9229, lng = 33.6233,
                    loc_type = ''city'', region = None \<rparr>"

definition demo_paphos :: location where
  "demo_paphos = \<lparr> loc_id = ''paphos'', loc_name = ''Paphos'', lat = 34.7754, lng = 32.4245,
                   loc_type = ''city'', region = None \<rparr>"

definition demo_kakopetria :: location where
  "demo_kakopetria = \<lparr> loc_id = ''kakopetria'', loc_name = ''Kakopetria'', lat = 34.9833,
                       lng = 32.9000, loc_type = ''village'', region = Some ''Troodos'' \<rparr>"

definition demo_platres :: location where
  "demo_platres = \<lparr> loc_id = ''platres'', loc_name = ''Platres'', lat = 34.8897, lng = 32.8639,
                    loc_type = ''village'', region = Some ''Troodos'' \<rparr>"

definition demo_lefkara :: location where
  "demo_lefkara = \<lparr> loc_id = ''lefkara'', loc_name = ''Lefkara'', lat = 34.8667, lng = 33.3000,
                    loc_type = ''village'', region = Some ''Larnaca'' \<rparr>"

definition demo_omodos :: location where
  "demo_omodos = \<lparr> loc_id = ''omodos'', loc_name = ''Omodos'', lat = 34.8472, lng = 32.8083,
                   loc_type = ''village'', region = Some ''Limassol'' \<rparr>"

definition demo_fikardou :: location where
  "demo_fikardou = \<lparr> loc_id = ''fikardou'', loc_name = ''Fikardou'', lat = 34.9667, lng = 33.1333,
                     loc_type = ''village'', region = Some ''Nicosia'' \<rparr>"

definition demo_peyia :: location where
  "demo_peyia = \<lparr> loc_id = ''peyia'', loc_name = ''Peyia'', lat = 34.8833, lng = 32.3500,
                  loc_type = ''village'', region = Some ''Paphos'' \<rparr>"

definition demo_nissi :: location where
  "demo_nissi = \<lparr> loc_id = ''nissi'', loc_name = ''Nissi Beach'', lat = 34.9875, lng = 34.0028,
                  loc_type = ''beach'', region = None \<rparr>"

definition demo_coral :: location where
  "demo_coral = \<lparr> loc_id = ''coral'', loc_name = ''Coral Bay'', lat = 34.8553, lng = 32.3569,
                  loc_type = ''beach'', region = None \<rparr>"

definition demo_konnos :: location where
  "demo_konnos = \<lparr> loc_id = ''konnos'', loc_name = ''Konnos Bay'', lat = 34.9764, lng = 34.0764,
                   loc_type = ''beach'', region = None \<rparr>"

definition demo_kourion :: location where
  "demo_kourion = \<lparr> loc_id = ''kourion'', loc_name = ''Kourion'', lat = 34.6647, lng = 32.8872,
                    loc_type = ''archaeological'', region = None \<rparr>"

definition demo_tombs :: location where
  "demo_tombs = \<lparr> loc_id = ''tombs'', loc_name = ''Tombs of Kings'', lat = 34.7728, lng = 32.4072,
                  loc_type = ''archaeological'', region = None \<rparr>"

definition CYPRUS_cities :: "location list" where
  "CYPRUS_cities = [demo_nicosia, demo_limassol, demo_larnaca, demo_paphos]"

definition CYPRUS_villages :: "location list" where
  "CYPRUS_villages =
     [demo_kakopetria, demo_platres, demo_lefkara, demo_omodos, demo_fikardou, demo_peyia]"

definition CYPRUS_beaches :: "location list" where
  "CYPRUS_beaches = [demo_nissi, demo_coral, demo_konnos]"

definition CYPRUS_archaeological :: "location list" where
  "CYPRUS_archaeological = [demo_kourion, demo_tombs]"

text \<open>
  What one call of \<open>generateRideRequest\<close> draws, in the order of the calls:
  \<open>Math.random()\<close> for the destination, for the origin and for the passengers, the
  identifier string, the clock, and \<open>Math.random()\<close> for the \<open>eta\<close>. \<open>Math.random()\<close>
  returns a number in \<open>[0, 1)\<close>.
\<close>

record gen_env =
  gen_destination :: real
  gen_origin :: real
  gen_passengers :: real
  gen_id :: string
  gen_now :: nat
  gen_eta :: real

definition unit_interval :: "real \<Rightarrow> bool" where
  "unit_interval u \<longleftrightarrow> 0 \<le> u \<and> u < 1"

text \<open>
  \<open>generateRideRequest\<close>, the same in both versions of the demo (the later one names the
  list of destinations \<open>ALL_DESTINATIONS\<close>). With draws in \<open>[0, 1)\<close> both indices lie
  within their lists.
\<close>

definition generateRideRequest :: "gen_env \<Rightarrow> ride_request" where
  "generateRideRequest env =
     (let allLocations = CYPRUS_villages @ CYPRUS_beaches @ CYPRUS_archaeological;
          destination = allLocations ! nat \<lfloor>gen_destination env * real (length allLocations)\<rfloor>;
          origin = CYPRUS_cities ! nat \<lfloor>gen_origin env * real (length CYPRUS_cities)\<rfloor>;
          passengers = \<lfloor>gen_passengers env * 4\<rfloor> + 1
      in \<lparr> rr_id = gen_id env, rr_origin = origin, rr_destination = destination,
           rr_passengers = passengers, rr_timestamp = gen_now env, rr_status = Pending,
           rr_eta = \<lfloor>gen_eta env * 20\<rfloor> + 5 \<rparr>)"

section \<open>LastMileDemo: handleRequestRide and the optimisation effect\<close>

text \<open>
  The component state of the demo, as far as the handlers below read or write it
  (\<open>activeTab\<close> and \<open>isOptimizing\<close> only drive the display). Both versions of the demo
  have the same \<open>handleRequestRide\<close>; the timer that hides the success banner again is
  not modelled.
\<close>

record demo_stats =
  totalRequests :: int
  activeVehicles :: int
  stat_co2Saved :: real
  avgWaitTime :: int

record demo_state =
  rideRequests :: "ride_request list"
  optimizedRoutes :: "cluster list"
  demo_stats :: demo_stats
  selectedOrigin :: "location option"
  selectedDestination :: "location option"
  showSuccess :: bool

text \<open>The identifier, the clock and the \<open>eta\<close> drawn by one call of \<open>handleRequestRide\<close>.\<close>

record ride_env =
  ride_id :: string
  ride_now :: nat
  ride_eta :: int

definition handleRequestRide :: "ride_env \<Rightarrow> demo_state \<Rightarrow> demo_state" where
  "handleRequestRide env s =
     (case selectedOrigin s of
        None \<Rightarrow> s
      | Some orig \<Rightarrow>
          (case selectedDestination s of
             None \<Rightarrow> s
           | Some dest \<Rightarrow>
               (let newRequest = \<lparr> rr_id = ride_id env, rr_origin = orig, rr_destination = dest,
                                   rr_passengers = 1, rr_timestamp = ride_now env,
                                   rr_status = Pending, rr_eta = ride_eta env \<rparr>
                in s \<lparr> rideRequests := rideRequests s @ [newRequest],
                       demo_stats := (demo_stats s) \<lparr> totalRequests := totalRequests (demo_stats s) + 1 \<rparr>,
                       showSuccess := True,
                       selectedOrigin := None,
                       selectedDestination := None \<rparr>)))"

text \<open>
  The effect that runs the optimisation once three requests are pending, in the first
  version of the demo. The delay of 1.5 s before its body runs is not modelled: the body
  sees the requests that were pending when the effect fired.
\<close>

definition optimization_effect :: "random_source \<Rightarrow> demo_state \<Rightarrow> demo_state" where
  "optimization_effect rnd s =
     (if length (filter (\<lambda>r. rr_status r = Pending) (rideRequests s)) \<ge> 3
      then (let optimized =
                  simulateRLOptimization rnd (filter (\<lambda>r. rr_status r = Pending) (rideRequests s))
            in s \<lparr> optimizedRoutes := optimized,
                   rideRequests := map (\<lambda>r. r \<lparr> rr_status := Assigned \<rparr>) (rideRequests s),
                   demo_stats := (demo_stats s)
                     \<lparr> stat_co2Saved := stat_co2Saved (demo_stats s)
                          + foldl (\<lambda>sum c. sum + co2Saved c) 0 optimized \<rparr> \<rparr>)
      else s)"

text \<open>
  The callback of the interval that simulates incoming requests: below eight stored
  requests it appends a generated one and counts it.
\<close>

definition request_tick :: "gen_env \<Rightarrow> demo_state \<Rightarrow> demo_state" where
  "request_tick env s =
     (if length (rideRequests s) < 8
      then s \<lparr> rideRequests := rideRequests s @ [generateRideRequest env],
               demo_stats := (demo_stats s) \<lparr> totalRequests := totalRequests (demo_stats s) + 1 \<rparr> \<rparr>
      else s)"

text \<open>
  Everything that changes the state of the first demo: a tick of the request interval, the
  two selection buttons, the request button, and a run of the optimisation effect. The
  state after a sequence of it, from the initial values of \<open>useState\<close>.
\<close>

datatype demo_event =
    Tick gen_env
  | SelectOrigin location
  | SelectDestination location
  | RequestRide ride_env
  | Optimize random_source

fun demo_step :: "demo_event \<Rightarrow> demo_state \<Rightarrow> demo_state" where
  "demo_step (Tick env) s = request_tick env s"
| "demo_step (SelectOrigin city) s = s \<lparr> selectedOrigin := Some city \<rparr>"
| "demo_step (SelectDestination loc) s = s \<lparr> selectedDestination := Some loc \<rparr>"
| "demo_step (RequestRide env) s = handleRequestRide env s"
| "demo_step (Optimize rnd) s = optimization_effect rnd s"

definition demo_initial :: demo_state where
  "demo_initial =
     \<lparr> rideRequests = [], optimizedRoutes = [],
       demo_stats = \<lparr> totalRequests = 0, activeVehicles = 3, stat_co2Saved = 0,
                      avgWaitTime = 12 \<rparr>,
       selectedOrigin = None, selectedDestination = None, showSuccess = False \<rparr>"

definition demo_run :: "demo_event list \<Rightarrow> demo_state" where
  "demo_run events = foldl (\<lambda>s e. demo_step e s) demo_initial events"

text \<open>The numbers drawn by an event lie in \<open>[0, 1)\<close>, as \<open>Math.random()\<close> returns them.\<close>

fun random_in_range :: "demo_event \<Rightarrow> bool" where
  "random_in_range (Tick env) \<longleftrightarrow>
     unit_interval (gen_destination env) \<and> unit_interval (gen_origin env)
     \<and> unit_interval (gen_passengers env) \<and> unit_interval (gen_eta env)"
| "random_in_range (SelectOrigin city) \<longleftrightarrow> True"
| "random_in_range (SelectDestination loc) \<longleftrightarrow> True"
| "random_in_range (RequestRide env) \<longleftrightarrow> True"
| "random_in_range (Optimize rnd) \<longleftrightarrow> True"

section \<open>The value of a submission call\<close>

text \<open>
  A call as the value it evaluates to together with the state it leaves. \<open>submitRequest\<close>
  is an \<open>async\<close> arrow function: its guard leaves with a bare \<open>return;\<close>, and past the
  guard the body runs to its end without a \<open>return\<close>, so on either path the call evaluates
  to \<open>undefined\<close> (to a promise fulfilled with it). \<open>handleRequestRide\<close> is one \<open>if\<close>
  without \<open>else\<close> and without \<open>return\<close>.
\<close>

datatype 'a returned = Undefined | Returned 'a

definition submitRequest_call :: "submit_env \<Rightarrow> app_state \<Rightarrow> request returned \<times> app_state" where
  "submitRequest_call env s =
     (if st_pickup s = None \<or> st_destination s = None then (Undefined, s)
      else (Undefined, submitRequest env s))"

definition handleRequestRide_call ::
  "ride_env \<Rightarrow> demo_state \<Rightarrow> ride_request returned \<times> demo_state" where
  "handleRequestRide_call env s =
     (if selectedOrigin s \<noteq> None \<and> selectedDestination s \<noteq> None
      then (Undefined, handleRequestRide env s)
      else (Undefined, s))"

section \<open>Notions of the specification\<close>

text \<open>
  The compatibility key as the specification words it: the destination's region if
  present, else its category.
\<close>

definition destination_key :: "location \<Rightarrow> string" where
  "destination_key loc = (case region loc of Some r \<Rightarrow> r | None \<Rightarrow> loc_type loc)"


text \<open>The sum of the great-circle lengths of the consecutive stop segments.\<close>

fun haversine_path :: "location list \<Rightarrow> real" where
  "haversine_path (a # b # rest) =
     getDistance (lat a) (lng a) (lat b) (lng b) + haversine_path (b # rest)"
| "haversine_path [a] = 0"
| "haversine_path [] = 0"

text \<open>Stops are coincident when they all lie on the coordinates of the first.\<close>

definition coincident :: "location list \<Rightarrow> bool" where
  "coincident ss = list_all (\<lambda>s. lat s = lat (hd ss) \<and> lng s = lng (hd ss)) ss"

text \<open>A coordinate pair away from the poles, its longitude in \<open>(-180, 180]\<close>.\<close>

definition on_globe :: "location \<Rightarrow> bool" where
  "on_globe s \<longleftrightarrow> - 90 < lat s \<and> lat s < 90 \<and> - 180 < lng s \<and> lng s \<le> 180"

section \<open>The clustering loops as one scheme\<close>

text \<open>
  The clustering loops have the same shape: an outer pass that seeds a cluster with every
  request not yet taken, and an inner pass over the whole list that appends each request
  not yet taken which the admission test accepts. \<open>scan\<close> and \<open>grouping\<close> state that shape
  once, with the identifier and the admission test as parameters; the loops of the source
  are shown below to be instances of it.
\<close>

fun scan ::
  "('a \<Rightarrow> string) \<Rightarrow> ('a list \<Rightarrow> 'a \<Rightarrow> bool) \<Rightarrow> 'a list \<Rightarrow> string set \<times> 'a list
     \<Rightarrow> string set \<times> 'a list" where
  "scan key admit [] (used, cluster) = (used, cluster)"
| "scan key admit (other # rest) (used, cluster) =
     (if key other \<notin> used \<and> admit cluster other
      then scan key admit rest (insert (key other) used, cluster @ [other])
      else scan key admit rest (used, cluster))"

fun grouping ::
  "('a \<Rightarrow> string) \<Rightarrow> ('a \<Rightarrow> 'a list \<Rightarrow> 'a \<Rightarrow> bool) \<Rightarrow> 'a list \<Rightarrow> 'a list
     \<Rightarrow> string set \<times> 'a list list \<Rightarrow> string set \<times> 'a list list" where
  "grouping key admit all [] (used, clusters) = (used, clusters)"
| "grouping key admit all (req # rest) (used, clusters) =
     (if key req \<in> used then grouping key admit all rest (used, clusters)
      else (case scan key (admit req) all (insert (key req) used, [req]) of
              (used', cluster) \<Rightarrow> grouping key admit all rest (used', clusters @ [cluster])))"

definition sim_admit :: "ride_request \<Rightarrow> ride_request list \<Rightarrow> ride_request \<Rightarrow> bool" where
  "sim_admit req cluster other \<longleftrightarrow>
     region (rr_destination other) = region (rr_destination req) \<and> length cluster < 4"

definition live_admit :: "ride_request \<Rightarrow> ride_request list \<Rightarrow> ride_request \<Rightarrow> bool" where
  "live_admit req cluster other \<longleftrightarrow>
     region_or_type (rr_destination other) = region_or_type (rr_destination req)
     \<and> length cluster < 4"

definition submit_admit :: "request \<Rightarrow> request list \<Rightarrow> request \<Rightarrow> bool" where
  "submit_admit req cluster other \<longleftrightarrow>
     getDistance (lat (destination req)) (lng (destination req))
                 (lat (destination other)) (lng (destination other)) < 20"

text \<open>
  The loop invariant of \<open>grouping\<close>: the taken identifiers are those of the clustered
  requests, no identifier is clustered twice, and only requests of the input are clustered.
\<close>

definition grouped :: "('a \<Rightarrow> string) \<Rightarrow> 'a list \<Rightarrow> string set \<times> 'a list list \<Rightarrow> bool" where
  "grouped key all st \<longleftrightarrow>
     fst st = key ` set (concat (snd st)) \<and> distinct (map key (concat (snd st)))
       \<and> set (concat (snd st)) \<subseteq> set all"

text \<open>
  What the scheme computes, stated without the set of taken identifiers. The first request
  of the list seeds a cluster; its companions are the later requests compatible with the
  seed, in the order of the list, cut off after \<open>n - 1\<close> of them when a cluster is capped
  at \<open>n\<close> requests; the requests left over are grouped in the same way.
\<close>

definition companions :: "nat option \<Rightarrow> ('a \<Rightarrow> 'a \<Rightarrow> bool) \<Rightarrow> 'a \<Rightarrow> 'a list \<Rightarrow> 'a list" where
  "companions cap compatible seed rest =
     (case cap of
        None \<Rightarrow> filter (compatible seed) rest
      | Some n \<Rightarrow> take (n - 1) (filter (compatible seed) rest))"

fun seeded_groups :: "nat option \<Rightarrow> ('a \<Rightarrow> 'a \<Rightarrow> bool) \<Rightarrow> 'a list \<Rightarrow> 'a list list" where
  "seeded_groups cap compatible [] = []"
| "seeded_groups cap compatible (seed # rest) =
     (seed # companions cap compatible seed rest)
       # seeded_groups cap compatible
           (filter (\<lambda>r. r \<notin> set (companions cap compatible seed rest)) rest)"

section \<open>Sample data\<close>

text \<open>Entries of \<open>LOCATIONS\<close> (map application).\<close>

definition map_nicosia :: location where
  "map_nicosia = \<lparr> loc_id = ''nicosia'', loc_name = ''Nicosia'', lat = 35.1856, lng = 33.3823,
                   loc_type = ''city'', region = None \<rparr>"

definition map_limassol :: location where
  "map_limassol = \<lparr> loc_id = ''limassol'', loc_name = ''Limassol'', lat = 34.6786, lng = 33.0413,
                    loc_type = ''city'', region = None \<rparr>"

definition map_kakopetria :: location where
  "map_kakopetria = \<lparr> loc_id = ''kakopetria'', loc_name = ''Kakopetria'', lat = 34.9833,
                      lng = 32.9000, loc_type = ''village'', region = None \<rparr>"

definition map_protaras :: location where
  "map_protaras = \<lparr> loc_id = ''protaras'', loc_name = ''Protaras'', lat = 35.0125, lng = 34.0583,
                    loc_type = ''city'', region = None \<rparr>"

definition map_figtree :: location where
  "map_figtree = \<lparr> loc_id = ''figtree'', loc_name = ''Fig Tree Bay'', lat = 35.0125,
                   lng = 34.0583, loc_type = ''beach'', region = None \<rparr>"

definition ride :: "string \<Rightarrow> location \<Rightarrow> int \<Rightarrow> ride_request" where
  "ride i dest n = \<lparr> rr_id = i, rr_origin = demo_nicosia, rr_destination = dest,
                     rr_passengers = n, rr_timestamp = 0, rr_status = Pending, rr_eta = 5 \<rparr>"

definition trip :: "string \<Rightarrow> location \<Rightarrow> location \<Rightarrow> int \<Rightarrow> request" where
  "trip i p d n = \<lparr> req_id = i, pickup = p, destination = d, passengers = n,
                    req_time = ''10:00:00'' \<rparr>"

definition sample_random :: random_source where
  "sample_random = \<lparr> rand_id = (\<lambda>k. ''c''), rand_unit = (\<lambda>k. 0) \<rparr>"

definition other_random :: random_source where
  "other_random = \<lparr> rand_id = (\<lambda>k. ''z''), rand_unit = (\<lambda>k. 1 / 2) \<rparr>"

text \<open>A provider that is down, and one that answers every query with a one-kilometre route.\<close>

definition osrm_down :: provider where
  "osrm_down = (\<lambda>coords. Throws)"

definition osrm_one_km :: provider where
  "osrm_one_km =
     (\<lambda>coords. Json ''Ok'' [\<lparr> or_coordinates = coords, or_distance = 1000, or_duration = 60 \<rparr>])"

definition sample_env :: "string \<Rightarrow> provider \<Rightarrow> submit_env" where
  "sample_env i osrm = \<lparr> env_request_id = i, env_time = ''10:00:00'',
                         env_route_id = (\<lambda>k. ''r''), env_osrm = osrm \<rparr>"

definition sample_pending :: "ride_request list" where
  "sample_pending =
     [ride ''a'' demo_kakopetria 2, ride ''b'' demo_lefkara 1, ride ''c'' demo_platres 3]"

definition nearby_trips :: "request list" where
  "nearby_trips =
     [trip ''a'' map_nicosia map_protaras 1, trip ''b'' map_nicosia map_figtree 1]"

definition mixed_trips :: "request list" where
  "mixed_trips =
     [trip ''a'' map_limassol map_nicosia 1, trip ''b'' map_nicosia map_limassol 2,
      trip ''c'' map_kakopetria map_nicosia 3]"

definition sample_trips :: "request list" where
  "sample_trips =
     [trip ''a'' map_nicosia map_kakopetria 20, trip ''b'' map_limassol map_kakopetria 20]"

text \<open>
  A session of the map application: Nicosia to Kakopetria for twenty passengers, then
  Limassol to Kakopetria for twenty passengers, the routing provider being down.
\<close>

definition first_trace :: "event list" where
  "first_trace =
     [MarkerClick map_nicosia, MarkerClick map_kakopetria] @ replicate 19 Increment
       @ [Submit (sample_env ''a'' osrm_down)]"

definition second_selection :: "event list" where
  "second_selection =
     [MarkerClick map_limassol, MarkerClick map_kakopetria] @ replicate 19 Increment"

definition sample_trace :: "event list" where
  "sample_trace = first_trace @ second_selection @ [Submit (sample_env ''b'' osrm_down)]"

definition demo_selected :: demo_state where
  "demo_selected =
     \<lparr> rideRequests = [], optimizedRoutes = [],
       demo_stats = \<lparr> totalRequests = 0, activeVehicles = 3, stat_co2Saved = 0,
                      avgWaitTime = 12 \<rparr>,
       selectedOrigin = Some demo_nicosia, selectedDestination = Some demo_kakopetria,
       showSuccess = False \<rparr>"

definition demo_waiting :: demo_state where
  "demo_waiting =
     demo_selected \<lparr> rideRequests := ride ''z'' demo_nissi 1 \<lparr> rr_status := Assigned \<rparr>
                                       # sample_pending \<rparr>"

definition sample_ride_env :: ride_env where
  "sample_ride_env = \<lparr> ride_id = ''u'', ride_now = 0, ride_eta = 7 \<rparr>"

text \<open>
  Five requests of four passengers each to Kakopetria; three draws of the request
  generator; a session of the demo in which three generated requests are optimised.
\<close>

definition full_load :: "ride_request list" where
  "full_load = map (\<lambda>i. ride i demo_kakopetria 4) [''a'', ''b'', ''c'', ''d'', ''e'']"

definition sample_draw :: "string \<Rightarrow> real \<Rightarrow> gen_env" where
  "sample_draw i u = \<lparr> gen_destination = 0, gen_origin = 0, gen_passengers = u, gen_id = i,
                       gen_now = 0, gen_eta = 0 \<rparr>"

definition sample_demo_trace :: "demo_event list" where
  "sample_demo_trace =
     [Tick (sample_draw ''a'' (3 / 4)), Tick (sample_draw ''b'' 0), Tick (sample_draw ''c'' (1 / 2)),
      Optimize sample_random]"

text \<open>
  The form of the map application filled in for one passenger from Nicosia to Kakopetria;
  a third submission, from Nicosia to Limassol, after the session above.
\<close>

definition valid_form :: "event list" where
  "valid_form = [MarkerClick map_nicosia, MarkerClick map_kakopetria]"

definition third_trace :: "event list" where
  "third_trace =
     [MarkerClick map_nicosia, MarkerClick map_limassol, Submit (sample_env ''c'' osrm_down)]"

section \<open>What the handlers guarantee about submissions\<close>

text \<open>
  The conditions the specification asks a submission to meet, read off a stored request
  and off the form state from which the next request is built.
\<close>

definition valid_request :: "request \<Rightarrow> bool" where
  "valid_request r \<longleftrightarrow>
     1 \<le> passengers r \<and> passengers r \<le> 20 \<and> loc_id (pickup r) \<noteq> loc_id (destination r)"

definition valid_selection :: "location option \<Rightarrow> location option \<Rightarrow> bool" where
  "valid_selection p d =
     (case d of
        None \<Rightarrow> True
      | Some dest \<Rightarrow> (case p of None \<Rightarrow> False | Some pick \<Rightarrow> loc_id pick \<noteq> loc_id dest))"

definition sound_state :: "app_state \<Rightarrow> bool" where
  "sound_state s \<longleftrightarrow>
     1 \<le> st_passengers s \<and> st_passengers s \<le> 20
     \<and> valid_selection (st_pickup s) (st_destination s)
     \<and> list_all valid_request (st_requests s)"

section \<open>Auxiliary notions\<close>

text \<open>The constant \<open>a\<close> of \<open>getDistance\<close>, and the length of the segment ending at stop \<open>i\<close>.\<close>

definition hav :: "real \<Rightarrow> real \<Rightarrow> real \<Rightarrow> real \<Rightarrow> real" where
  "hav lat1 lng1 lat2 lng2 =
     (sin ((lat2 - lat1) * pi / 180 / 2))\<^sup>2
       + cos (lat1 * pi / 180) * cos (lat2 * pi / 180) * (sin ((lng2 - lng1) * pi / 180 / 2))\<^sup>2"

definition segment :: "location list \<Rightarrow> nat \<Rightarrow> real" where
  "segment ss i = getDistance (lat (ss ! (i - 1))) (lng (ss ! (i - 1))) (lat (ss ! i)) (lng (ss ! i))"

section \<open>The source loops are instances of the scheme\<close>

lemma sim_inner_scan: "sim_inner req xs (p, c) = scan rr_id (sim_admit req) xs (p, c)"
  by (induction xs arbitrary: p c) (simp_all add: sim_admit_def)

lemma submit_inner_scan: "submit_inner req xs (u, c) = scan req_id (submit_admit req) xs (u, c)"
  by (induction xs arbitrary: u c) (simp_all add: submit_admit_def Let_def)

text \<open>What one inner pass does to its state: it appends fresh requests of the list.\<close>

lemma scan_shape:
  "\<exists>added. snd (scan key admit xs (used, cl)) = cl @ added
      \<and> fst (scan key admit xs (used, cl)) = used \<union> key ` set added
      \<and> set added \<subseteq> set xs \<and> distinct (map key added) \<and> key ` set added \<inter> used = {}"
proof (induction xs arbitrary: used cl)
  case Nil
  show ?case by simp
next
  case (Cons x xs)
  show ?case
  proof (cases "key x \<notin> used \<and> admit cl x")
    case True
    from Cons.IH [of "insert (key x) used" "cl @ [x]"]
    obtain added where a:
      "snd (scan key admit xs (insert (key x) used, cl @ [x])) = (cl @ [x]) @ added"
      "fst (scan key admit xs (insert (key x) used, cl @ [x]))
         = insert (key x) used \<union> key ` set added"
      "set added \<subseteq> set xs" "distinct (map key added)"
      "key ` set added \<inter> insert (key x) used = {}"
      by blast
    show ?thesis
      apply (rule exI [of _ "x # added"])
      using True a by auto
  next
    case False
    from Cons.IH [of used cl]
    obtain added where a: "snd (scan key admit xs (used, cl)) = cl @ added"
      "fst (scan key admit xs (used, cl)) = used \<union> key ` set added"
      "set added \<subseteq> set xs" "distinct (map key added)" "key ` set added \<inter> used = {}"
      by blast
    show ?thesis
      apply (rule exI [of _ added])
      using False a by auto
  qed
qed

lemma scan_nonempty: "cl \<noteq> [] \<Longrightarrow> snd (scan key admit xs (used, cl)) \<noteq> []"
  using scan_shape [of key admit xs used cl] by auto

lemma sim_outer_grouping:
  "fst (sim_outer rnd all todo (p, cls))
     = fst (grouping rr_id sim_admit all todo (p, map cl_requests cls))
   \<and> map cl_requests (snd (sim_outer rnd all todo (p, cls)))
        = snd (grouping rr_id sim_admit all todo (p, map cl_requests cls))"
proof (induction todo arbitrary: p cls)
  case Nil
  show ?case by simp
next
  case (Cons req rest)
  show ?case
  proof (cases "rr_id req \<in> p")
    case True
    then show ?thesis using Cons.IH [of p cls] by simp
  next
    case False
    obtain u c where s: "scan rr_id (sim_admit req) all (insert (rr_id req) p, [req]) = (u, c)"
      by (cases "scan rr_id (sim_admit req) all (insert (rr_id req) p, [req])")
    have "c \<noteq> []"
      using scan_nonempty [of "[req]" rr_id "sim_admit req" all "insert (rr_id req) p"] s by simp
    then show ?thesis
      using False s Cons.IH [of u "cls @ [make_cluster rnd (length cls) c]"]
      by (simp add: sim_inner_scan make_cluster_def)
  qed
qed

lemma simulate_requests:
  "map cl_requests (simulateRLOptimization rnd reqs)
     = snd (grouping rr_id sim_admit reqs reqs ({}, []))"
  using sim_outer_grouping [of rnd reqs reqs "{}" "[]"] by (simp add: simulateRLOptimization_def)

lemma submit_outer_grouping:
  "submit_outer all todo (u, cls) = grouping req_id submit_admit all todo (u, cls)"
proof (induction todo arbitrary: u cls)
  case Nil
  show ?case by simp
next
  case (Cons req rest)
  show ?case
  proof (cases "req_id req \<in> u")
    case True
    then show ?thesis using Cons.IH [of u cls] by simp
  next
    case False
    obtain u' c
      where s: "scan req_id (submit_admit req) all (insert (req_id req) u, [req]) = (u', c)"
      by (cases "scan req_id (submit_admit req) all (insert (req_id req) u, [req])")
    show ?thesis using False s Cons.IH [of u' "cls @ [c]"] by (simp add: submit_inner_scan)
  qed
qed

lemma submit_clusters_grouping:
  "submit_clusters reqs = snd (grouping req_id submit_admit reqs reqs ({}, []))"
  by (simp add: submit_clusters_def submit_outer_grouping)

lemma live_inner_scan: "live_inner req xs (p, c) = scan rr_id (live_admit req) xs (p, c)"
  by (induction xs arbitrary: p c) (simp_all add: live_admit_def Let_def)

lemma live_outer_grouping:
  "fst (live_outer rnd all todo (p, cls))
     = fst (grouping rr_id live_admit all todo (p, map lc_requests cls))
   \<and> map lc_requests (snd (live_outer rnd all todo (p, cls)))
        = snd (grouping rr_id live_admit all todo (p, map lc_requests cls))"
proof (induction todo arbitrary: p cls)
  case Nil
  show ?case by simp
next
  case (Cons req rest)
  show ?case
  proof (cases "rr_id req \<in> p")
    case True
    then show ?thesis using Cons.IH [of p cls] by simp
  next
    case False
    obtain u c where s: "scan rr_id (live_admit req) all (insert (rr_id req) p, [req]) = (u, c)"
      by (cases "scan rr_id (live_admit req) all (insert (rr_id req) p, [req])")
    have "c \<noteq> []"
      using scan_nonempty [of "[req]" rr_id "live_admit req" all "insert (rr_id req) p"] s by simp
    then show ?thesis
      using False s Cons.IH [of u "cls @ [make_live_cluster rnd (length cls) c]"]
      by (simp add: live_inner_scan make_live_cluster_def Let_def)
  qed
qed

lemma live_requests:
  "map lc_requests (simulateRLOptimization_live rnd reqs)
     = snd (grouping rr_id live_admit reqs reqs ({}, []))"
  using live_outer_grouping [of rnd reqs reqs "{}" "[]"]
  by (simp add: simulateRLOptimization_live_def)

section \<open>The clusters partition the input\<close>

lemma grouping_grouped:
  "grouped key all (used, cls) \<Longrightarrow> set todo \<subseteq> set all
     \<Longrightarrow> grouped key all (grouping key admit all todo (used, cls))"
proof (induction todo arbitrary: used cls)
  case Nil
  then show ?case by simp
next
  case (Cons req rest)
  show ?case
  proof (cases "key req \<in> used")
    case True
    then show ?thesis using Cons by simp
  next
    case False
    obtain added where a:
      "snd (scan key (admit req) all (insert (key req) used, [req])) = [req] @ added"
      "fst (scan key (admit req) all (insert (key req) used, [req]))
         = insert (key req) used \<union> key ` set added"
      "set added \<subseteq> set all" "distinct (map key added)"
      "key ` set added \<inter> insert (key req) used = {}"
      using scan_shape [of key "admit req" all "insert (key req) used" "[req]"] by blast
    have u: "used = key ` set (concat cls)" and d: "distinct (map key (concat cls))"
      and sb: "set (concat cls) \<subseteq> set all"
      using Cons.prems(1) by (simp_all add: grouped_def)
    have "key ` set (req # added) \<inter> used = {}" using a(5) False by auto
    then have disj: "key ` set (concat cls) \<inter> key ` set (req # added) = {}"
      unfolding u by (simp only: Int_commute)
    have d2: "distinct (map key (req # added))"
      using a(4,5) by auto
    have "distinct (map key (concat cls @ req # added))"
      using d d2 disj by (simp only: map_append distinct_append set_map)
    moreover have "set (concat cls @ req # added) \<subseteq> set all"
      using sb a(3) Cons.prems(2) by simp
    moreover have "insert (key req) used \<union> key ` set added
                     = key ` set (concat cls @ req # added)"
      using u by auto
    ultimately have g:
      "grouped key all (insert (key req) used \<union> key ` set added, cls @ [req # added])"
      by (simp add: grouped_def)
    have "grouping key admit all (req # rest) (used, cls)
            = grouping key admit all rest
                (insert (key req) used \<union> key ` set added, cls @ [req # added])"
      using False a by (simp split: prod.split) (metis fst_conv snd_conv)
    then show ?thesis using Cons.IH [OF g] Cons.prems by simp
  qed
qed

lemma grouping_used_mono: "used \<subseteq> fst (grouping key admit all todo (used, cls))"
proof (induction todo arbitrary: used cls)
  case Nil
  show ?case by simp
next
  case (Cons req rest)
  show ?case
  proof (cases "key req \<in> used")
    case True
    then show ?thesis using Cons.IH [of used cls] by simp
  next
    case False
    obtain u c where s: "scan key (admit req) all (insert (key req) used, [req]) = (u, c)"
      by (cases "scan key (admit req) all (insert (key req) used, [req])")
    have "insert (key req) used \<subseteq> u"
      using scan_shape [of key "admit req" all "insert (key req) used" "[req]"] s by auto
    then show ?thesis using Cons.IH [of u "cls @ [c]"] False s by auto
  qed
qed

lemma grouping_covers: "key ` set todo \<subseteq> fst (grouping key admit all todo (used, cls))"
proof (induction todo arbitrary: used cls)
  case Nil
  show ?case by simp
next
  case (Cons req rest)
  show ?case
  proof (cases "key req \<in> used")
    case True
    then show ?thesis
      using Cons.IH [of used cls] grouping_used_mono [of used key admit all rest cls] by auto
  next
    case False
    obtain u c where s: "scan key (admit req) all (insert (key req) used, [req]) = (u, c)"
      by (cases "scan key (admit req) all (insert (key req) used, [req])")
    have "insert (key req) used \<subseteq> u"
      using scan_shape [of key "admit req" all "insert (key req) used" "[req]"] s by auto
    then show ?thesis
      using Cons.IH [of u "cls @ [c]"]
        grouping_used_mono [of u key admit all rest "cls @ [c]"] False s
      by auto
  qed
qed

lemma grouping_partition:
  assumes "distinct (map key reqs)"
  shows "mset (concat (snd (grouping key admit reqs reqs ({}, [])))) = mset reqs"
proof -
  let ?st = "grouping key admit reqs reqs ({}, [])"
  have g: "grouped key reqs ?st"
    by (rule grouping_grouped) (simp_all add: grouped_def)
  have cov: "key ` set reqs \<subseteq> fst ?st" by (rule grouping_covers)
  have inj: "inj_on key (set reqs)" using assms by (simp add: distinct_map)
  have sub: "set (concat (snd ?st)) \<subseteq> set reqs" using g by (simp add: grouped_def)
  have "set reqs \<subseteq> set (concat (snd ?st))"
  proof
    fix r assume r: "r \<in> set reqs"
    then have "key r \<in> key ` set (concat (snd ?st))" using cov g by (auto simp: grouped_def)
    then have "\<exists>r'\<in>set (concat (snd ?st)). key r = key r'" by (simp only: image_iff)
    then obtain r' where r': "r' \<in> set (concat (snd ?st))" "key r' = key r"
      by (elim bexE) simp
    then have "r' = r" using inj sub r by (auto dest: inj_onD)
    then show "r \<in> set (concat (snd ?st))" using r' by simp
  qed
  then have "set (concat (snd ?st)) = set reqs" using sub by blast
  moreover have "distinct (concat (snd ?st))" using g by (simp add: grouped_def distinct_map)
  moreover have "distinct reqs" using assms by (simp add: distinct_map)
  ultimately show ?thesis by (simp only: set_eq_iff_mset_eq_distinct)
qed

lemma sizes_of_partition:
  "mset (concat xss) = mset ys \<Longrightarrow> sum_list (map length xss) = length ys"
proof -
  assume "mset (concat xss) = mset ys"
  then have "length (concat xss) = length ys" by (rule mset_eq_length)
  then show ?thesis by (simp add: length_concat)
qed

lemma effect_clusters_pending:
  assumes "distinct (map rr_id (rideRequests s))"
    and "3 \<le> length (filter (\<lambda>r. rr_status r = Pending) (rideRequests s))"
  shows "mset (concat (map cl_requests (optimizedRoutes (optimization_effect rnd s))))
           = mset (filter (\<lambda>r. rr_status r = Pending) (rideRequests s))"
proof -
  let ?pending = "filter (\<lambda>r. rr_status r = Pending) (rideRequests s)"
  have d: "distinct (map rr_id ?pending)" using assms(1) by (rule distinct_map_filter)
  have "optimizedRoutes (optimization_effect rnd s) = simulateRLOptimization rnd ?pending"
    using assms(2) by (simp add: optimization_effect_def Let_def)
  then show ?thesis
    using grouping_partition [OF d, of sim_admit] by (simp add: simulate_requests)
qed

text \<open>
  C1. When the request identifiers are pairwise distinct, as the data model requires,
  every request handed to a clustering run lies in exactly one cluster of the output:
  the clusters, concatenated, are a rearrangement of the input, and their sizes sum to
  the number of requests. This holds for both versions of \<open>simulateRLOptimization\<close> and
  for the clustering inside \<open>submitRequest\<close>. When the demo's optimisation effect fires,
  its clusters hold exactly the requests then pending, each once, and every request is
  marked assigned.
\<close>

theorem clustering_partitions_requests:
  "(distinct (map rr_id pending) \<longrightarrow>
      mset (concat (map cl_requests (simulateRLOptimization rnd pending))) = mset pending
      \<and> sum_list (map (\<lambda>c. length (cl_requests c)) (simulateRLOptimization rnd pending))
          = length pending
      \<and> mset (concat (map lc_requests (simulateRLOptimization_live rnd pending))) = mset pending
      \<and> sum_list (map (\<lambda>c. length (lc_requests c)) (simulateRLOptimization_live rnd pending))
          = length pending)
   \<and> (distinct (map req_id newRequests) \<longrightarrow>
      mset (concat (submit_clusters newRequests)) = mset newRequests
      \<and> sum_list (map length (submit_clusters newRequests)) = length newRequests)
   \<and> (distinct (map rr_id (rideRequests s))
        \<and> 3 \<le> length (filter (\<lambda>r. rr_status r = Pending) (rideRequests s)) \<longrightarrow>
      mset (concat (map cl_requests (optimizedRoutes (optimization_effect rnd s))))
        = mset (filter (\<lambda>r. rr_status r = Pending) (rideRequests s))
      \<and> list_all (\<lambda>r. rr_status r = Assigned) (rideRequests (optimization_effect rnd s)))"
proof (intro conjI impI)
  assume d: "distinct (map rr_id pending)"
  show m: "mset (concat (map cl_requests (simulateRLOptimization rnd pending))) = mset pending"
    using grouping_partition [OF d, of sim_admit] by (simp add: simulate_requests)
  have "sum_list (map length (map cl_requests (simulateRLOptimization rnd pending)))
          = length pending"
    using m by (rule sizes_of_partition)
  then show "sum_list (map (\<lambda>c. length (cl_requests c)) (simulateRLOptimization rnd pending))
               = length pending"
    by (simp add: comp_def)
  show l: "mset (concat (map lc_requests (simulateRLOptimization_live rnd pending)))
             = mset pending"
    using grouping_partition [OF d, of live_admit] by (simp add: live_requests)
  have "sum_list (map length (map lc_requests (simulateRLOptimization_live rnd pending)))
          = length pending"
    using l by (rule sizes_of_partition)
  then show "sum_list (map (\<lambda>c. length (lc_requests c))
                 (simulateRLOptimization_live rnd pending)) = length pending"
    by (simp add: comp_def)
next
  assume d: "distinct (map req_id newRequests)"
  show m: "mset (concat (submit_clusters newRequests)) = mset newRequests"
    using grouping_partition [OF d, of submit_admit] by (simp add: submit_clusters_grouping)
  then show "sum_list (map length (submit_clusters newRequests)) = length newRequests"
    by (rule sizes_of_partition)
next
  assume h: "distinct (map rr_id (rideRequests s))
        \<and> 3 \<le> length (filter (\<lambda>r. rr_status r = Pending) (rideRequests s))"
  then show "mset (concat (map cl_requests (optimizedRoutes (optimization_effect rnd s))))
        = mset (filter (\<lambda>r. rr_status r = Pending) (rideRequests s))"
    by (simp add: effect_clusters_pending)
  show "list_all (\<lambda>r. rr_status r = Assigned) (rideRequests (optimization_effect rnd s))"
    using h by (simp add: optimization_effect_def Let_def list_all_iff)
qed

theorem clustering_partitions_requests_witness:
  "distinct (map rr_id sample_pending)
   \<and> mset (concat (map cl_requests (simulateRLOptimization sample_random sample_pending)))
       = mset sample_pending
   \<and> sum_list (map (\<lambda>c. length (cl_requests c))
        (simulateRLOptimization sample_random sample_pending)) = 3
   \<and> mset (concat (map lc_requests (simulateRLOptimization_live sample_random sample_pending)))
       = mset sample_pending
   \<and> sum_list (map (\<lambda>c. length (lc_requests c))
        (simulateRLOptimization_live sample_random sample_pending)) = 3
   \<and> distinct (map req_id sample_trips)
   \<and> mset (concat (submit_clusters sample_trips)) = mset sample_trips
   \<and> sum_list (map length (submit_clusters sample_trips)) = 2
   \<and> filter (\<lambda>r. rr_status r = Pending) (rideRequests demo_waiting) = sample_pending
   \<and> mset (concat (map cl_requests (optimizedRoutes (optimization_effect sample_random demo_waiting))))
       = mset sample_pending
   \<and> map rr_status (rideRequests (optimization_effect sample_random demo_waiting))
       = [Assigned, Assigned, Assigned, Assigned]"
proof -
  note t = clustering_partitions_requests
    [of sample_pending sample_random sample_trips demo_waiting]
  have f: "filter (\<lambda>r. rr_status r = Pending) (rideRequests demo_waiting) = sample_pending"
    by (simp add: demo_waiting_def demo_selected_def sample_pending_def ride_def)
  have d: "distinct (map rr_id (rideRequests demo_waiting))"
    by (simp add: demo_waiting_def demo_selected_def sample_pending_def ride_def)
  have n: "3 \<le> length (filter (\<lambda>r. rr_status r = Pending) (rideRequests demo_waiting))"
    by (simp only: f) (simp add: sample_pending_def)
  have 1: "distinct (map rr_id sample_pending)" by (simp add: sample_pending_def ride_def)
  have 2: "distinct (map req_id sample_trips)" by (simp add: sample_trips_def trip_def)
  have a: "mset (concat (map cl_requests (simulateRLOptimization sample_random sample_pending)))
       = mset sample_pending
   \<and> sum_list (map (\<lambda>c. length (cl_requests c))
        (simulateRLOptimization sample_random sample_pending)) = length sample_pending
   \<and> mset (concat (map lc_requests (simulateRLOptimization_live sample_random sample_pending)))
       = mset sample_pending
   \<and> sum_list (map (\<lambda>c. length (lc_requests c))
        (simulateRLOptimization_live sample_random sample_pending)) = length sample_pending"
    using t [THEN conjunct1] 1 by blast
  have b: "mset (concat (submit_clusters sample_trips)) = mset sample_trips
   \<and> sum_list (map length (submit_clusters sample_trips)) = length sample_trips"
    using t [THEN conjunct2, THEN conjunct1] 2 by blast
  have c: "mset (concat (map cl_requests (optimizedRoutes (optimization_effect sample_random demo_waiting))))
        = mset (filter (\<lambda>r. rr_status r = Pending) (rideRequests demo_waiting))"
    using t [THEN conjunct2, THEN conjunct2] d n by blast
  have e: "map rr_status (rideRequests (optimization_effect sample_random demo_waiting))
       = [Assigned, Assigned, Assigned, Assigned]"
    using n by (simp add: optimization_effect_def Let_def)
       (simp add: demo_waiting_def demo_selected_def sample_pending_def)
  have l: "length sample_pending = 3" "length sample_trips = 2"
    by (simp_all add: sample_pending_def sample_trips_def)
  show ?thesis using 1 2 a b c e f l by simp
qed

section \<open>Rounding and bounds on the great-circle distance\<close>

lemma toFixed1_nonneg: "0 \<le> x \<Longrightarrow> 0 \<le> toFixed1 x"
  by (simp add: toFixed1_def)

lemma toFixed1_close: "\<bar>toFixed1 x - x\<bar> \<le> 1 / 20"
proof (cases "x < 0")
  case True
  define n where "n = \<lfloor>(- x) * 10 + 1 / 2\<rfloor>"
  have b: "of_int n \<le> (- x) * 10 + 1 / 2" "(- x) * 10 + 1 / 2 < of_int n + 1"
    unfolding n_def by linarith+
  have t: "toFixed1 x = - (of_int n / 10)" using True by (simp add: toFixed1_def n_def)
  have "toFixed1 x - x \<le> 1 / 20" "- (toFixed1 x - x) \<le> 1 / 20"
    unfolding t using b by linarith+
  then show ?thesis by (rule abs_leI)
next
  case False
  define n where "n = \<lfloor>x * 10 + 1 / 2\<rfloor>"
  have b: "of_int n \<le> x * 10 + 1 / 2" "x * 10 + 1 / 2 < of_int n + 1"
    unfolding n_def by linarith+
  have t: "toFixed1 x = of_int n / 10" using False by (simp add: toFixed1_def n_def)
  have "toFixed1 x - x \<le> 1 / 20" "- (toFixed1 x - x) \<le> 1 / 20"
    unfolding t using b by linarith+
  then show ?thesis by (rule abs_leI)
qed

lemma atan2_nonneg: "0 \<le> y \<Longrightarrow> 0 \<le> atan2 y x"
proof -
  assume y: "0 \<le> y"
  have "x < 0 \<Longrightarrow> 0 \<le> arctan (y / x) + pi"
    using arctan_lbound [of "y / x"] pi_gt_zero by linarith
  then show ?thesis using y by (auto simp: atan2_def)
qed

lemma atan2_pos: "0 < y \<Longrightarrow> 0 < atan2 y x"
proof -
  assume y: "0 < y"
  have "x < 0 \<Longrightarrow> 0 < arctan (y / x) + pi"
    using arctan_lbound [of "y / x"] pi_gt_zero by linarith
  then show ?thesis using y by (auto simp: atan2_def)
qed

lemma cos_degrees_pos: "- 90 < (t::real) \<Longrightarrow> t < 90 \<Longrightarrow> 0 < cos (t * pi / 180)"
proof (rule cos_gt_zero_pi)
  assume "- 90 < t" "t < 90"
  then have "- 90 * pi < t * pi" "t * pi < 90 * pi"
    by (simp_all only: mult_strict_right_mono [OF _ pi_gt_zero])
  then show "- (pi / 2) < t * pi / 180" "t * pi / 180 < pi / 2" by simp_all
qed

lemma sin_half_degrees_nonzero:
  assumes "(t::real) \<noteq> 0" "- 360 < t" "t < 360"
  shows "sin (t * pi / 180 / 2) \<noteq> 0"
proof -
  have "- 360 * pi < t * pi" "t * pi < 360 * pi"
    using assms(2,3) by (simp_all only: mult_strict_right_mono [OF _ pi_gt_zero])
  then have "\<bar>t * pi / 180 / 2\<bar> < pi" by (simp add: abs_less_iff)
  moreover have "t * pi / 180 / 2 \<noteq> 0" using assms by simp
  ultimately show ?thesis by (simp add: sin_zero_pi_iff)
qed

lemma getDistance_hav:
  "getDistance lat1 lng1 lat2 lng2
     = 6371 * 2 * atan2 (sqrt (hav lat1 lng1 lat2 lng2)) (sqrt (1 - hav lat1 lng1 lat2 lng2))"
  by (simp add: getDistance_def hav_def Let_def)

lemma hav_nonneg:
  assumes "- 90 < lat1" "lat1 < 90" "- 90 < lat2" "lat2 < 90"
  shows "0 \<le> hav lat1 lng1 lat2 lng2"
proof -
  have "0 < cos (lat1 * pi / 180) * cos (lat2 * pi / 180)"
    using assms by (simp add: cos_degrees_pos)
  then have "0 \<le> cos (lat1 * pi / 180) * cos (lat2 * pi / 180)
                  * (sin ((lng2 - lng1) * pi / 180 / 2))\<^sup>2"
    by simp
  then show ?thesis unfolding hav_def by simp
qed

lemma hav_pos:
  assumes "- 90 < lat1" "lat1 < 90" "- 90 < lat2" "lat2 < 90"
    and "- 360 < lng2 - lng1" "lng2 - lng1 < 360"
    and "lat1 \<noteq> lat2 \<or> lng1 \<noteq> lng2"
  shows "0 < hav lat1 lng1 lat2 lng2"
proof -
  have c: "0 < cos (lat1 * pi / 180) * cos (lat2 * pi / 180)"
    using assms by (simp add: cos_degrees_pos)
  show ?thesis
  proof (cases "lat1 = lat2")
    case False
    then have "sin ((lat2 - lat1) * pi / 180 / 2) \<noteq> 0"
      using assms by (intro sin_half_degrees_nonzero) simp_all
    then have "0 < (sin ((lat2 - lat1) * pi / 180 / 2))\<^sup>2" by simp
    moreover have "0 \<le> cos (lat1 * pi / 180) * cos (lat2 * pi / 180)
                  * (sin ((lng2 - lng1) * pi / 180 / 2))\<^sup>2"
      using c by simp
    ultimately show ?thesis unfolding hav_def by linarith
  next
    case True
    then have "lng2 - lng1 \<noteq> 0" using assms by simp
    then have "sin ((lng2 - lng1) * pi / 180 / 2) \<noteq> 0"
      using assms by (intro sin_half_degrees_nonzero) simp_all
    then have "0 < (sin ((lng2 - lng1) * pi / 180 / 2))\<^sup>2" by simp
    then have "0 < cos (lat1 * pi / 180) * cos (lat2 * pi / 180)
                  * (sin ((lng2 - lng1) * pi / 180 / 2))\<^sup>2"
      using c by simp
    moreover have "0 \<le> (sin ((lat2 - lat1) * pi / 180 / 2))\<^sup>2" by simp
    ultimately show ?thesis unfolding hav_def by linarith
  qed
qed

lemma getDistance_nonneg:
  assumes "- 90 < lat1" "lat1 < 90" "- 90 < lat2" "lat2 < 90"
  shows "0 \<le> getDistance lat1 lng1 lat2 lng2"
proof -
  have "0 \<le> sqrt (hav lat1 lng1 lat2 lng2)" using hav_nonneg [OF assms] by simp
  then have "0 \<le> atan2 (sqrt (hav lat1 lng1 lat2 lng2)) (sqrt (1 - hav lat1 lng1 lat2 lng2))"
    by (rule atan2_nonneg)
  then show ?thesis by (simp add: getDistance_hav)
qed

lemma getDistance_pos:
  assumes "- 90 < lat1" "lat1 < 90" "- 90 < lat2" "lat2 < 90"
    and "- 360 < lng2 - lng1" "lng2 - lng1 < 360"
    and "lat1 \<noteq> lat2 \<or> lng1 \<noteq> lng2"
  shows "0 < getDistance lat1 lng1 lat2 lng2"
proof -
  have "0 < sqrt (hav lat1 lng1 lat2 lng2)" using hav_pos [OF assms] by simp
  then have "0 < atan2 (sqrt (hav lat1 lng1 lat2 lng2)) (sqrt (1 - hav lat1 lng1 lat2 lng2))"
    by (rule atan2_pos)
  then show ?thesis by (simp add: getDistance_hav)
qed

text \<open>
  The great-circle distance is at least the distance along a meridian between the two
  latitudes.
\<close>

lemma atan2_lower:
  assumes "0 \<le> x" "x < pi / 2" "(sin x)\<^sup>2 \<le> h"
  shows "x \<le> atan2 (sqrt h) (sqrt (1 - h))"
proof -
  have s: "0 \<le> sin x" using assms(1,2) by (intro sin_ge_zero) (use pi_gt_zero in linarith)+
  have c: "0 < cos x" using assms(1,2) by (intro cos_gt_zero_pi) linarith+
  have h0: "0 \<le> h" using assms(3) zero_le_power2 [of "sin x"] by linarith
  have sh: "sin x \<le> sqrt h"
    using assms(3) s by (metis real_sqrt_le_mono real_sqrt_abs abs_of_nonneg)
  consider "0 < 1 - h" | "1 - h = 0" | "1 - h < 0" by linarith
  then show ?thesis
  proof cases
    case 1
    have "1 - h \<le> 1 - (sin x)\<^sup>2" using assms(3) by simp
    also have "\<dots> = (cos x)\<^sup>2" by (simp add: cos_squared_eq)
    finally have "sqrt (1 - h) \<le> sqrt ((cos x)\<^sup>2)" by (rule real_sqrt_le_mono)
    also have "\<dots> = \<bar>cos x\<bar>" by (rule real_sqrt_abs)
    finally have ch: "sqrt (1 - h) \<le> cos x" using c by simp
    have p: "0 < sqrt (1 - h)" using 1 by simp
    have "tan x \<le> sqrt h / sqrt (1 - h)"
      unfolding tan_def by (rule frac_le [OF _ sh p ch]) (use h0 in simp)
    then have "arctan (tan x) \<le> arctan (sqrt h / sqrt (1 - h))" by (rule arctan_monotone')
    moreover have "arctan (tan x) = x" using assms(1,2) by (intro arctan_tan) linarith+
    ultimately show ?thesis using p by (simp add: atan2_def)
  next
    case 2
    then have "h = 1" by simp
    then show ?thesis using assms(2) by (simp add: atan2_def)
  next
    case 3
    then have n: "sqrt (1 - h) < 0" by simp
    have "0 \<le> sqrt h" using h0 by simp
    moreover have "- (pi / 2) < arctan (sqrt h / sqrt (1 - h))" by (rule arctan_lbound)
    ultimately show ?thesis using n assms(2) by (simp add: atan2_def)
  qed
qed

lemma getDistance_at_least_meridian:
  assumes "- 90 < lat1" "lat1 < 90" "- 90 < lat2" "lat2 < 90"
  shows "6371 * \<bar>lat2 - lat1\<bar> * pi / 180 \<le> getDistance lat1 lng1 lat2 lng2"
proof -
  define d where "d = lat2 - lat1"
  let ?x = "\<bar>d\<bar> * pi / 180 / 2"
  have "\<bar>d\<bar> < 180" using assms unfolding d_def by linarith
  then have "\<bar>d\<bar> * pi < 180 * pi" by (simp only: mult_strict_right_mono [OF _ pi_gt_zero])
  then have x: "0 \<le> ?x" "?x < pi / 2" by simp_all
  have "sin ?x = sin (d * pi / 180 / 2) \<or> sin ?x = - sin (d * pi / 180 / 2)"
  proof (cases "0 \<le> d")
    case True
    then show ?thesis by simp
  next
    case False
    then have "?x = - (d * pi / 180 / 2)" by simp
    then show ?thesis by (simp only: sin_minus) simp
  qed
  then have e: "(sin ?x)\<^sup>2 = (sin ((lat2 - lat1) * pi / 180 / 2))\<^sup>2"
    unfolding d_def by auto
  have "0 < cos (lat1 * pi / 180) * cos (lat2 * pi / 180)"
    using assms by (simp add: cos_degrees_pos)
  then have "0 \<le> cos (lat1 * pi / 180) * cos (lat2 * pi / 180)
                  * (sin ((lng2 - lng1) * pi / 180 / 2))\<^sup>2"
    by simp
  then have "(sin ?x)\<^sup>2 \<le> hav lat1 lng1 lat2 lng2" unfolding e hav_def by simp
  then have "?x \<le> atan2 (sqrt (hav lat1 lng1 lat2 lng2)) (sqrt (1 - hav lat1 lng1 lat2 lng2))"
    by (rule atan2_lower [OF x])
  then have "6371 * \<bar>d\<bar> * pi / 180
               \<le> 6371 * 2 * atan2 (sqrt (hav lat1 lng1 lat2 lng2)) (sqrt (1 - hav lat1 lng1 lat2 lng2))"
    by linarith
  then show ?thesis unfolding getDistance_hav d_def .
qed

lemma nicosia_far_from_limassol:
  "\<not> getDistance (lat map_nicosia) (lng map_nicosia) (lat map_limassol) (lng map_limassol) < 20"
proof -
  have "6371 * \<bar>lat map_limassol - lat map_nicosia\<bar> * pi / 180
          \<le> getDistance (lat map_nicosia) (lng map_nicosia) (lat map_limassol) (lng map_limassol)"
    by (rule getDistance_at_least_meridian) (simp_all add: map_nicosia_def map_limassol_def)
  moreover have "20 \<le> 6371 * \<bar>lat map_limassol - lat map_nicosia\<bar> * pi / 180"
    using pi_ge_two by (simp add: map_nicosia_def map_limassol_def)
  ultimately show ?thesis by linarith
qed

section \<open>Membership does not depend on the random draws\<close>

lemma build_route_requests: "r_requests (build_route osrm rid cluster) = cluster"
  by (simp add: build_route_def Let_def)

lemma build_routes_requests_from:
  "map r_requests (map (\<lambda>(k, cluster). build_route osrm (ids k) cluster) (enumerate n clusters))
     = clusters"
  by (induction clusters arbitrary: n) (simp_all add: build_route_requests)

lemma build_routes_requests: "map r_requests (build_routes osrm ids clusters) = clusters"
  by (simp only: build_routes_def build_routes_requests_from)

text \<open>
  C8. Cluster membership is a function of the request sequence alone. The random draws of
  \<open>simulateRLOptimization\<close> (cluster identifiers, savings estimates), in either version,
  do not reach the membership, and in the map application neither the route identifiers
  nor the routing provider's answers do: two runs on the same sequence group the same
  requests together.
\<close>

theorem membership_independent_of_randomness:
  "map cl_requests (simulateRLOptimization rnd reqs)
     = map cl_requests (simulateRLOptimization rnd' reqs)
   \<and> map lc_requests (simulateRLOptimization_live rnd reqs)
     = map lc_requests (simulateRLOptimization_live rnd' reqs)
   \<and> map r_requests (build_routes osrm ids (submit_clusters newRequests))
     = map r_requests (build_routes osrm' ids' (submit_clusters newRequests))"
proof (intro conjI)
  show "map cl_requests (simulateRLOptimization rnd reqs)
          = map cl_requests (simulateRLOptimization rnd' reqs)"
    by (simp only: simulate_requests)
  show "map lc_requests (simulateRLOptimization_live rnd reqs)
          = map lc_requests (simulateRLOptimization_live rnd' reqs)"
    by (simp only: live_requests)
  show "map r_requests (build_routes osrm ids (submit_clusters newRequests))
          = map r_requests (build_routes osrm' ids' (submit_clusters newRequests))"
    by (simp only: build_routes_requests)
qed

theorem membership_independent_of_randomness_witness:
  "map cl_requests (simulateRLOptimization sample_random sample_pending)
     = map cl_requests (simulateRLOptimization other_random sample_pending)
   \<and> map lc_requests (simulateRLOptimization_live sample_random sample_pending)
     = map lc_requests (simulateRLOptimization_live other_random sample_pending)
   \<and> map r_requests (build_routes osrm_down (\<lambda>k. ''r'') (submit_clusters sample_trips))
     = map r_requests (build_routes osrm_one_km (\<lambda>k. ''q'') (submit_clusters sample_trips))"
  by (rule membership_independent_of_randomness)

section \<open>The clusters, seed by seed\<close>

text \<open>
  With pairwise distinct identifiers, the inner pass started for a seed only ever looks at
  the requests after the seed that are not yet taken, and the set of taken identifiers
  can be dispensed with: the scheme computes \<open>seeded_groups\<close>.
\<close>

lemma scan_append:
  "scan key admit (xs @ ys) st = scan key admit ys (scan key admit xs st)"
proof (induction xs arbitrary: st)
  case Nil
  show ?case by (cases st) simp
next
  case (Cons x xs)
  obtain u c where st: "st = (u, c)" by (cases st)
  show ?case unfolding st using Cons.IH by simp
qed

lemma scan_skip: "key ` set xs \<subseteq> used \<Longrightarrow> scan key admit xs (used, cl) = (used, cl)"
  by (induction xs) auto

lemma scan_uncapped:
  "distinct (map key xs) \<Longrightarrow>
     scan key (\<lambda>c x. ok x) xs (used, cl)
       = (used \<union> key ` set [x \<leftarrow> xs. key x \<notin> used \<and> ok x],
          cl @ [x \<leftarrow> xs. key x \<notin> used \<and> ok x])"
proof (induction xs arbitrary: used cl)
  case Nil
  show ?case by simp
next
  case (Cons x xs)
  have d: "distinct (map key xs)" and n: "\<forall>y\<in>set xs. key y \<noteq> key x"
    using Cons.prems by (auto simp: image_iff)
  have f: "[y \<leftarrow> xs. key y \<notin> insert (key x) used \<and> ok y] = [y \<leftarrow> xs. key y \<notin> used \<and> ok y]"
    using n by (intro filter_cong) auto
  show ?case
  proof (cases "key x \<notin> used \<and> ok x")
    case True
    have ih: "scan key (\<lambda>c x. ok x) xs (insert (key x) used, cl @ [x])
                = (insert (key x) used \<union> key ` set [y \<leftarrow> xs. key y \<notin> used \<and> ok y],
                   (cl @ [x]) @ [y \<leftarrow> xs. key y \<notin> used \<and> ok y])"
      using Cons.IH [OF d, of "insert (key x) used" "cl @ [x]"] unfolding f .
    have "scan key (\<lambda>c x. ok x) (x # xs) (used, cl)
            = scan key (\<lambda>c x. ok x) xs (insert (key x) used, cl @ [x])"
      using True by simp
    also have "\<dots> = (used \<union> key ` set (x # [y \<leftarrow> xs. key y \<notin> used \<and> ok y]),
                      cl @ x # [y \<leftarrow> xs. key y \<notin> used \<and> ok y])"
      unfolding ih by simp
    also have "x # [y \<leftarrow> xs. key y \<notin> used \<and> ok y] = [y \<leftarrow> x # xs. key y \<notin> used \<and> ok y]"
      using True by simp
    finally show ?thesis .
  next
    case False
    have "scan key (\<lambda>c x. ok x) (x # xs) (used, cl) = scan key (\<lambda>c x. ok x) xs (used, cl)"
      using False by auto
    moreover have "[y \<leftarrow> x # xs. key y \<notin> used \<and> ok y] = [y \<leftarrow> xs. key y \<notin> used \<and> ok y]"
      using False by auto
    ultimately show ?thesis using Cons.IH [OF d, of used cl] by (simp only:)
  qed
qed

lemma scan_capped:
  "distinct (map key xs) \<Longrightarrow>
     scan key (\<lambda>c x. ok x \<and> length c < n) xs (used, cl)
       = (used \<union> key ` set (take (n - length cl) [x \<leftarrow> xs. key x \<notin> used \<and> ok x]),
          cl @ take (n - length cl) [x \<leftarrow> xs. key x \<notin> used \<and> ok x])"
proof (induction xs arbitrary: used cl)
  case Nil
  show ?case by simp
next
  case (Cons x xs)
  have d: "distinct (map key xs)" and k: "\<forall>y\<in>set xs. key y \<noteq> key x"
    using Cons.prems by (auto simp: image_iff)
  have f: "[y \<leftarrow> xs. key y \<notin> insert (key x) used \<and> ok y] = [y \<leftarrow> xs. key y \<notin> used \<and> ok y]"
    using k by (intro filter_cong) auto
  let ?F = "[y \<leftarrow> xs. key y \<notin> used \<and> ok y]"
  show ?case
  proof (cases "key x \<notin> used \<and> ok x")
    case False
    have "scan key (\<lambda>c x. ok x \<and> length c < n) (x # xs) (used, cl)
            = scan key (\<lambda>c x. ok x \<and> length c < n) xs (used, cl)"
      using False by auto
    moreover have "[y \<leftarrow> x # xs. key y \<notin> used \<and> ok y] = ?F"
      using False by auto
    ultimately show ?thesis using Cons.IH [OF d, of used cl] by (simp only:)
  next
    case True
    have fx: "[y \<leftarrow> x # xs. key y \<notin> used \<and> ok y] = x # ?F" using True by simp
    show ?thesis
    proof (cases "length cl < n")
      case True
      then obtain m where m: "n - length cl = Suc m" by (cases "n - length cl") simp_all
      then have m': "n - length (cl @ [x]) = m" by simp
      have ih: "scan key (\<lambda>c x. ok x \<and> length c < n) xs (insert (key x) used, cl @ [x])
                = (insert (key x) used \<union> key ` set (take m ?F), (cl @ [x]) @ take m ?F)"
        using Cons.IH [OF d, of "insert (key x) used" "cl @ [x]"] unfolding f m' .
      have "scan key (\<lambda>c x. ok x \<and> length c < n) (x # xs) (used, cl)
              = scan key (\<lambda>c x. ok x \<and> length c < n) xs (insert (key x) used, cl @ [x])"
        using \<open>key x \<notin> used \<and> ok x\<close> True by simp
      also have "\<dots> = (used \<union> key ` set (take (Suc m) (x # ?F)), cl @ take (Suc m) (x # ?F))"
        unfolding ih by simp
      finally show ?thesis unfolding fx m .
    next
      case False
      then have z: "n - length cl = 0" by simp
      have "scan key (\<lambda>c x. ok x \<and> length c < n) (x # xs) (used, cl)
              = scan key (\<lambda>c x. ok x \<and> length c < n) xs (used, cl)"
        using False by simp
      then show ?thesis using Cons.IH [OF d, of used cl] unfolding z by simp
    qed
  qed
qed

lemma scan_companions:
  assumes "\<And>c x. admit c x \<longleftrightarrow> ok x \<and> (case cap of None \<Rightarrow> True | Some n \<Rightarrow> length c < n)"
    and "distinct (map key xs)"
  shows "scan key admit xs (used, [seed])
       = (used \<union> key ` set (companions cap (\<lambda>s. ok) seed [x \<leftarrow> xs. key x \<notin> used]),
          seed # companions cap (\<lambda>s. ok) seed [x \<leftarrow> xs. key x \<notin> used])"
proof (cases cap)
  case None
  have "admit = (\<lambda>c x. ok x)" using assms(1) None by (intro ext) simp
  then show ?thesis
    using scan_uncapped [OF assms(2), of ok used "[seed]"] None
    by (simp add: companions_def)
next
  case (Some n)
  have "admit = (\<lambda>c x. ok x \<and> length c < n)" using assms(1) Some by (intro ext) simp
  then show ?thesis
    using scan_capped [OF assms(2), of ok n used "[seed]"] Some
    by (simp add: companions_def)
qed

lemma grouping_seeded:
  assumes adm: "\<And>r c x. admit r c x \<longleftrightarrow>
                  ok r x \<and> (case cap of None \<Rightarrow> True | Some n \<Rightarrow> length c < n)"
  shows "distinct (map key (pre @ todo)) \<Longrightarrow> key ` set pre \<subseteq> used
     \<Longrightarrow> snd (grouping key admit (pre @ todo) todo (used, cls))
           = cls @ seeded_groups cap ok [r \<leftarrow> todo. key r \<notin> used]"
proof (induction todo arbitrary: pre used cls)
  case Nil
  show ?case by simp
next
  case (Cons req rest)
  have d': "distinct (map key ((pre @ [req]) @ rest))" using Cons.prems(1) by simp
  have all: "pre @ req # rest = (pre @ [req]) @ rest" by simp
  show ?case
  proof (cases "key req \<in> used")
    case True
    have p: "key ` set (pre @ [req]) \<subseteq> used" using True Cons.prems(2) by simp
    show ?thesis
      unfolding all using Cons.IH [OF d' p, of cls] True by simp
  next
    case False
    let ?F = "[x \<leftarrow> rest. key x \<notin> used]"
    let ?A = "companions cap ok req ?F"
    have dr: "distinct (map key rest)" and inj: "inj_on key (set rest)"
      using Cons.prems(1) by (simp_all add: distinct_map)
    have kr: "\<forall>y\<in>set rest. key y \<noteq> key req"
      using Cons.prems(1) by (auto simp: image_iff)
    have skip: "scan key (admit req) (pre @ [req]) (insert (key req) used, [req])
                  = (insert (key req) used, [req])"
      by (rule scan_skip) (use Cons.prems(2) in auto)
    have F: "[x \<leftarrow> rest. key x \<notin> insert (key req) used] = ?F"
      using kr by (intro filter_cong) auto
    have comp: "companions cap (\<lambda>s. ok req) req ?F = ?A"
      by (simp add: companions_def)
    have sc: "scan key (admit req) ((pre @ [req]) @ rest) (insert (key req) used, [req])
                = (insert (key req) used \<union> key ` set ?A, req # ?A)"
      unfolding scan_append [of key "admit req" "pre @ [req]" rest] skip
      using scan_companions [of "admit req" "ok req" cap key rest "insert (key req) used" req,
          OF adm dr]
      unfolding F comp .
    have sub: "set ?A \<subseteq> set rest"
      by (auto simp: companions_def split: option.splits dest: in_set_takeD)
    have p: "key ` set (pre @ [req]) \<subseteq> insert (key req) used \<union> key ` set ?A"
      using Cons.prems(2) by auto
    have rem: "[r \<leftarrow> rest. key r \<notin> insert (key req) used \<union> key ` set ?A]
                 = filter (\<lambda>r. r \<notin> set ?A) ?F"
    proof -
      have e: "\<And>r. r \<in> set rest \<Longrightarrow>
              (key r \<notin> insert (key req) used \<union> key ` set ?A) = (key r \<notin> used \<and> r \<notin> set ?A)"
      proof -
        fix r assume r: "r \<in> set rest"
        have "key r \<noteq> key req" using kr r by auto
        moreover have "key r \<in> key ` set ?A \<longleftrightarrow> r \<in> set ?A"
          using inj sub r by (auto dest: inj_onD)
        ultimately show "(key r \<notin> insert (key req) used \<union> key ` set ?A)
                           = (key r \<notin> used \<and> r \<notin> set ?A)" by auto
      qed
      have "filter (\<lambda>r. r \<notin> set ?A) ?F = [r \<leftarrow> rest. key r \<notin> used \<and> r \<notin> set ?A]"
        by (simp only: filter_filter)
      also have "\<dots> = [r \<leftarrow> rest. key r \<notin> insert (key req) used \<union> key ` set ?A]"
        by (rule filter_cong [OF refl]) (simp only: e)
      finally show ?thesis by (rule sym)
    qed
    have g: "grouping key admit (pre @ req # rest) (req # rest) (used, cls)
               = grouping key admit ((pre @ [req]) @ rest) rest
                   (insert (key req) used \<union> key ` set ?A, cls @ [req # ?A])"
      using False sc by simp
    have "snd (grouping key admit (pre @ req # rest) (req # rest) (used, cls))
            = (cls @ [req # ?A])
                @ seeded_groups cap ok [r \<leftarrow> rest. key r \<notin> insert (key req) used \<union> key ` set ?A]"
      unfolding g by (rule Cons.IH [OF d' p])
    also have "\<dots> = cls @ ((req # ?A) # seeded_groups cap ok (filter (\<lambda>r. r \<notin> set ?A) ?F))"
      unfolding rem by simp
    also have "(req # ?A) # seeded_groups cap ok (filter (\<lambda>r. r \<notin> set ?A) ?F)
                 = seeded_groups cap ok (req # ?F)"
      by (simp only: seeded_groups.simps)
    also have "req # ?F = [r \<leftarrow> req # rest. key r \<notin> used]" using False by simp
    finally show ?thesis .
  qed
qed

lemma live_clusters_seeded:
  assumes "distinct (map rr_id reqs)"
  shows "map lc_requests (simulateRLOptimization_live rnd reqs)
       = seeded_groups (Some 4)
           (\<lambda>seed r. region_or_type (rr_destination r) = region_or_type (rr_destination seed))
           reqs"
  using grouping_seeded [of live_admit
      "\<lambda>seed r. region_or_type (rr_destination r) = region_or_type (rr_destination seed)"
      "Some 4" rr_id "[]" reqs "{}" "[]"] assms
  by (simp add: live_requests live_admit_def)

lemma submit_clusters_seeded:
  assumes "distinct (map req_id reqs)"
  shows "submit_clusters reqs
       = seeded_groups None
           (\<lambda>seed r. getDistance (lat (destination seed)) (lng (destination seed))
                                  (lat (destination r)) (lng (destination r)) < 20)
           reqs"
  using grouping_seeded [of submit_admit
      "\<lambda>seed r. getDistance (lat (destination seed)) (lng (destination seed))
                                  (lat (destination r)) (lng (destination r)) < 20"
      None req_id "[]" reqs "{}" "[]"] assms
  by (simp add: submit_clusters_grouping submit_admit_def)

lemma sim_clusters_seeded:
  assumes "distinct (map rr_id reqs)"
  shows "map cl_requests (simulateRLOptimization rnd reqs)
       = seeded_groups (Some 4)
           (\<lambda>seed r. region (rr_destination r) = region (rr_destination seed))
           reqs"
  using grouping_seeded [of sim_admit
      "\<lambda>seed r. region (rr_destination r) = region (rr_destination seed)"
      "Some 4" rr_id "[]" reqs "{}" "[]"] assms
  by (simp add: simulate_requests sim_admit_def)

lemma seeded_groups_single:
  assumes "\<forall>r\<in>set rest. near seed r"
  shows "seeded_groups None near (seed # rest) = [seed # rest]"
proof -
  have "companions None near seed rest = rest" using assms by (simp add: companions_def)
  then show ?thesis by simp
qed

text \<open>
  A request is left for a later group only if it is incompatible with the seed of every
  earlier group that is not full.
\<close>

lemma companions_subset: "set (companions cap ok seed rest) \<subseteq> set rest"
  by (auto simp: companions_def split: option.splits dest: in_set_takeD)

lemma seeded_groups_members: "set (concat (seeded_groups cap ok xs)) \<subseteq> set xs"
proof (induction cap ok xs rule: seeded_groups.induct)
  case (1 cap ok)
  show ?case by simp
next
  case (2 cap ok seed rest)
  have "set (concat (seeded_groups cap ok
               (filter (\<lambda>r. r \<notin> set (companions cap ok seed rest)) rest))) \<subseteq> set rest"
    using 2 by auto
  then show ?case using companions_subset [of cap ok seed rest] by auto
qed

lemma companions_all:
  assumes "r \<in> set rest" "ok seed r"
    and "case cap of None \<Rightarrow> True | Some n \<Rightarrow> length (seed # companions cap ok seed rest) < n"
  shows "r \<in> set (companions cap ok seed rest)"
proof (cases cap)
  case None
  then show ?thesis using assms(1,2) by (simp add: companions_def)
next
  case (Some n)
  have "length (take (n - 1) (filter (ok seed) rest)) < n - 1"
    using assms(3) Some by (simp add: companions_def)
  then have "length (filter (ok seed) rest) < n - 1" by simp
  then have "take (n - 1) (filter (ok seed) rest) = filter (ok seed) rest" by simp
  then show ?thesis using assms(1,2) Some by (simp add: companions_def)
qed

lemma seeded_groups_maximal:
  "i < j \<Longrightarrow> j < length (seeded_groups cap ok xs)
     \<Longrightarrow> r \<in> set (seeded_groups cap ok xs ! j)
     \<Longrightarrow> (case cap of None \<Rightarrow> True | Some n \<Rightarrow> length (seeded_groups cap ok xs ! i) < n)
     \<Longrightarrow> \<not> ok (hd (seeded_groups cap ok xs ! i)) r"
proof (induction cap ok xs arbitrary: i j rule: seeded_groups.induct)
  case (1 cap ok)
  then show ?case by simp
next
  case (2 cap ok seed rest)
  let ?A = "companions cap ok seed rest"
  let ?G = "seeded_groups cap ok (filter (\<lambda>r. r \<notin> set ?A) rest)"
  obtain j' where j: "j = Suc j'" using "2.prems"(1) by (cases j) simp_all
  have jl: "j' < length ?G" using "2.prems"(2) j by simp
  have rj: "r \<in> set (?G ! j')" using "2.prems"(3) j by simp
  show ?case
  proof (cases i)
    case 0
    have "?G ! j' \<in> set ?G" using jl by (rule nth_mem)
    then have "r \<in> set (concat ?G)" using rj by auto
    then have "r \<in> set (filter (\<lambda>r. r \<notin> set ?A) rest)"
      using seeded_groups_members [of cap ok "filter (\<lambda>r. r \<notin> set ?A) rest"] by blast
    then have r: "r \<in> set rest" "r \<notin> set ?A" by simp_all
    have full: "case cap of None \<Rightarrow> True | Some n \<Rightarrow> length (seed # ?A) < n"
      using "2.prems"(4) 0 by (cases cap) simp_all
    have "\<not> ok seed r"
    proof
      assume "ok seed r"
      then have "r \<in> set ?A" using companions_all [OF r(1) _ full] by blast
      then show False using r(2) by simp
    qed
    then show ?thesis using 0 by simp
  next
    case (Suc i')
    have "i' < j'" using "2.prems"(1) j Suc by simp
    moreover have "case cap of None \<Rightarrow> True | Some n \<Rightarrow> length (?G ! i') < n"
      using "2.prems"(4) Suc by (cases cap) simp_all
    ultimately have "\<not> ok (hd (?G ! i')) r" using "2.IH" jl rj by blast
    then show ?thesis using Suc by simp
  qed
qed

section \<open>What decides compatibility\<close>

lemma scan_preserves:
  "P cl \<Longrightarrow> (\<And>c x. P c \<Longrightarrow> admit c x \<Longrightarrow> P (c @ [x]))
     \<Longrightarrow> P (snd (scan key admit xs (used, cl)))"
  by (induction xs arbitrary: used cl) auto

lemma grouping_clusters:
  assumes "\<forall>c\<in>set cls. Q c"
    and "\<And>req. Q [req]"
    and "\<And>c x. c \<noteq> [] \<Longrightarrow> Q c \<Longrightarrow> admit (hd c) c x \<Longrightarrow> Q (c @ [x])"
  shows "\<forall>c\<in>set (snd (grouping key admit all todo (used, cls))). Q c"
  using assms(1)
proof (induction todo arbitrary: used cls)
  case Nil
  then show ?case by simp
next
  case (Cons req rest)
  show ?case
  proof (cases "key req \<in> used")
    case True
    then show ?thesis using Cons.IH [OF Cons.prems] by simp
  next
    case False
    obtain u c where s: "scan key (admit req) all (insert (key req) used, [req]) = (u, c)"
      by (cases "scan key (admit req) all (insert (key req) used, [req])")
    have "snd (scan key (admit req) all (insert (key req) used, [req])) \<noteq> []
            \<and> hd (snd (scan key (admit req) all (insert (key req) used, [req]))) = req
            \<and> Q (snd (scan key (admit req) all (insert (key req) used, [req])))"
    proof (rule scan_preserves [where P = "\<lambda>c. c \<noteq> [] \<and> hd c = req \<and> Q c"])
      show "[req] \<noteq> [] \<and> hd [req] = req \<and> Q [req]" by (simp add: assms(2))
    next
      fix c x
      assume h: "c \<noteq> [] \<and> hd c = req \<and> Q c" and a: "admit req c x"
      then have "Q (c @ [x])" using assms(3) [of c x] by simp
      then show "c @ [x] \<noteq> [] \<and> hd (c @ [x]) = req \<and> Q (c @ [x])" using h by simp
    qed
    then have "Q c" using s by simp
    then have q: "\<forall>c\<in>set (cls @ [c]). Q c" using Cons.prems by simp
    have g: "grouping key admit all (req # rest) (used, cls)
               = grouping key admit all rest (u, cls @ [c])"
      using False s by simp
    show ?thesis unfolding g by (rule Cons.IH [OF q])
  qed
qed

lemma sim_cluster_shape:
  assumes "c \<in> set (simulateRLOptimization rnd reqs)"
  shows "cl_requests c \<noteq> [] \<and> length (cl_requests c) \<le> 4
     \<and> (\<forall>r\<in>set (cl_requests c).
           region (rr_destination (hd (cl_requests c))) = region (rr_destination r))"
proof -
  let ?Q = "\<lambda>c. c \<noteq> [] \<and> length c \<le> 4
      \<and> (\<forall>r\<in>set c. region (rr_destination (hd c)) = region (rr_destination r))"
  have "\<forall>c\<in>set (snd (grouping rr_id sim_admit reqs reqs ({}, []))). ?Q c"
  proof (rule grouping_clusters)
    show "\<forall>c\<in>set []. ?Q c" by simp
  next
    fix req :: ride_request show "?Q [req]" by simp
  next
    fix c :: "ride_request list" and x
    assume "c \<noteq> []" "?Q c" "sim_admit (hd c) c x"
    then show "?Q (c @ [x])" by (simp add: sim_admit_def)
  qed
  moreover have "cl_requests c \<in> set (map cl_requests (simulateRLOptimization rnd reqs))"
    using assms by simp
  ultimately show ?thesis unfolding simulate_requests by blast
qed

lemma getDistance_same: "getDistance a b a b = 0"
  by (simp add: getDistance_def atan2_def)

lemma submit_cluster_shape:
  assumes "c \<in> set (submit_clusters reqs)"
  shows "c \<noteq> [] \<and> (\<forall>r\<in>set c.
           getDistance (lat (destination (hd c))) (lng (destination (hd c)))
                       (lat (destination r)) (lng (destination r)) < 20)"
proof -
  let ?Q = "\<lambda>c. c \<noteq> [] \<and> (\<forall>r\<in>set c.
           getDistance (lat (destination (hd c))) (lng (destination (hd c)))
                       (lat (destination r)) (lng (destination r)) < 20)"
  have "\<forall>c\<in>set (snd (grouping req_id submit_admit reqs reqs ({}, []))). ?Q c"
  proof (rule grouping_clusters)
    show "\<forall>c\<in>set []. ?Q c" by simp
  next
    fix req :: request show "?Q [req]" by (simp add: getDistance_same)
  next
    fix c :: "request list" and x
    assume "c \<noteq> []" "?Q c" "submit_admit (hd c) c x"
    then show "?Q (c @ [x])" by (simp add: submit_admit_def)
  qed
  then show ?thesis using assms unfolding submit_clusters_grouping by blast
qed


lemma sim_pair:
  assumes "rr_id a \<noteq> rr_id b"
  shows "map cl_requests (simulateRLOptimization rnd [a, b])
       = (if region (rr_destination a) = region (rr_destination b) then [[a, b]] else [[a], [b]])"
proof (cases "region (rr_destination a) = region (rr_destination b)")
  case True
  then show ?thesis using assms by (simp add: simulateRLOptimization_def make_cluster_def)
next
  case False
  then have "region (rr_destination b) \<noteq> region (rr_destination a)" by simp
  then show ?thesis using assms False by (simp add: simulateRLOptimization_def make_cluster_def)
qed

lemma submit_pair:
  assumes "req_id x \<noteq> req_id y"
  shows "submit_clusters [x, y]
       = (if getDistance (lat (destination x)) (lng (destination x))
                         (lat (destination y)) (lng (destination y)) < 20
          then [[x, y]] else [[x], [y]])"
proof (cases "getDistance (lat (destination x)) (lng (destination x))
                          (lat (destination y)) (lng (destination y)) < 20")
  case True
  then show ?thesis using assms by (simp add: submit_clusters_def Let_def)
next
  case False
  then show ?thesis using assms by (simp add: submit_clusters_def Let_def)
qed

lemma live_cluster_shape:
  assumes "c \<in> set (simulateRLOptimization_live rnd reqs)"
  shows "lc_requests c \<noteq> [] \<and> length (lc_requests c) \<le> 4
     \<and> (\<forall>r\<in>set (lc_requests c).
           region_or_type (rr_destination (hd (lc_requests c)))
             = region_or_type (rr_destination r))"
proof -
  let ?Q = "\<lambda>c. c \<noteq> [] \<and> length c \<le> 4
      \<and> (\<forall>r\<in>set c. region_or_type (rr_destination (hd c)) = region_or_type (rr_destination r))"
  have "\<forall>c\<in>set (snd (grouping rr_id live_admit reqs reqs ({}, []))). ?Q c"
  proof (rule grouping_clusters)
    show "\<forall>c\<in>set []. ?Q c" by simp
  next
    fix req :: ride_request show "?Q [req]" by simp
  next
    fix c :: "ride_request list" and x
    assume "c \<noteq> []" "?Q c" "live_admit (hd c) c x"
    then show "?Q (c @ [x])" by (simp add: live_admit_def)
  qed
  moreover have "lc_requests c \<in> set (map lc_requests (simulateRLOptimization_live rnd reqs))"
    using assms by simp
  ultimately show ?thesis unfolding live_requests by blast
qed

lemma live_pair:
  assumes "rr_id a \<noteq> rr_id b"
  shows "map lc_requests (simulateRLOptimization_live rnd [a, b])
       = (if region_or_type (rr_destination a) = region_or_type (rr_destination b)
          then [[a, b]] else [[a], [b]])"
proof (cases "region_or_type (rr_destination a) = region_or_type (rr_destination b)")
  case True
  then show ?thesis using assms by (simp add: live_requests live_admit_def)
next
  case False
  then have "region_or_type (rr_destination b) \<noteq> region_or_type (rr_destination a)" by simp
  then show ?thesis using assms False by (simp add: live_requests live_admit_def)
qed

lemma region_or_type_key: "region loc \<noteq> Some [] \<Longrightarrow> region_or_type loc = destination_key loc"
  by (simp add: region_or_type_def destination_key_def split: option.splits)

text \<open>
  The first version compares \<open>region\<close> alone. On requests whose destinations all declare
  a region it forms the clusters of the later version.
\<close>

lemma scan_admit_cong:
  "(\<And>c x. x \<in> set xs \<Longrightarrow> admit c x = admit' c x)
     \<Longrightarrow> scan key admit xs st = scan key admit' xs st"
proof (induction xs arbitrary: st)
  case Nil
  show ?case by (cases st) simp
next
  case (Cons x xs)
  obtain u c where st: "st = (u, c)" by (cases st)
  have a: "admit c x = admit' c x" using Cons.prems by simp
  have "\<And>st'. scan key admit xs st' = scan key admit' xs st'"
    using Cons.IH Cons.prems by simp
  then show ?case using a st by simp
qed

lemma grouping_admit_cong:
  assumes "\<And>r c x. r \<in> set all \<Longrightarrow> x \<in> set all \<Longrightarrow> admit r c x = admit' r c x"
  shows "set todo \<subseteq> set all
     \<Longrightarrow> grouping key admit all todo st = grouping key admit' all todo st"
proof (induction todo arbitrary: st)
  case Nil
  show ?case by (cases st) simp
next
  case (Cons req rest)
  obtain u cls where st: "st = (u, cls)" by (cases st)
  have r: "req \<in> set all" using Cons.prems by simp
  have s: "scan key (admit req) all (insert (key req) u, [req])
             = scan key (admit' req) all (insert (key req) u, [req])"
    by (rule scan_admit_cong) (simp add: assms r)
  have "\<And>st'. grouping key admit all rest st' = grouping key admit' all rest st'"
    using Cons.IH Cons.prems by simp
  then show ?case using st s by simp
qed

lemma region_only_agrees:
  assumes "\<forall>r\<in>set reqs. region (rr_destination r) \<noteq> None
              \<and> region (rr_destination r) \<noteq> Some []"
  shows "map cl_requests (simulateRLOptimization rnd reqs)
           = map lc_requests (simulateRLOptimization_live rnd' reqs)"
proof -
  have "grouping rr_id sim_admit reqs reqs ({}, []) = grouping rr_id live_admit reqs reqs ({}, [])"
  proof (rule grouping_admit_cong)
    fix r c x assume "r \<in> set reqs" "x \<in> set reqs"
    then have "region (rr_destination r) \<noteq> None \<and> region (rr_destination r) \<noteq> Some []"
      "region (rr_destination x) \<noteq> None \<and> region (rr_destination x) \<noteq> Some []"
      using assms by blast+
    then show "sim_admit r c x = live_admit r c x"
      by (auto simp: sim_admit_def live_admit_def region_or_type_def split: option.splits)
  qed simp
  then show ?thesis by (simp add: simulate_requests live_requests)
qed

lemma live_maximal:
  assumes "distinct (map rr_id reqs)" "i < j" "j < length (simulateRLOptimization_live rnd reqs)"
    and "length (lc_requests (simulateRLOptimization_live rnd reqs ! i)) < 4"
    and "r \<in> set (lc_requests (simulateRLOptimization_live rnd reqs ! j))"
  shows "region_or_type (rr_destination r)
       \<noteq> region_or_type (rr_destination (hd (lc_requests (simulateRLOptimization_live rnd reqs ! i))))"
proof -
  let ?L = "simulateRLOptimization_live rnd reqs"
  let ?ok = "\<lambda>seed r. region_or_type (rr_destination r) = region_or_type (rr_destination seed)"
  let ?G = "seeded_groups (Some 4) ?ok reqs"
  have g: "map lc_requests ?L = ?G" by (rule live_clusters_seeded [OF assms(1)])
  have l: "length ?G = length ?L" unfolding g [symmetric] by simp
  have nj: "?G ! j = lc_requests (?L ! j)" unfolding g [symmetric] using assms(3) by simp
  have ni: "?G ! i = lc_requests (?L ! i)" unfolding g [symmetric] using assms(2,3) by simp
  have "\<not> ?ok (hd (?G ! i)) r"
    using seeded_groups_maximal
      [where i = i and j = j and cap = "Some 4" and ok = ?ok and xs = reqs and r = r]
      assms(2,3,4,5) l nj ni
    by simp
  then show ?thesis using ni by simp
qed

lemma submit_maximal:
  assumes "distinct (map req_id reqs)" "i < j" "j < length (submit_clusters reqs)"
    and "r \<in> set (submit_clusters reqs ! j)"
  shows "\<not> getDistance (lat (destination (hd (submit_clusters reqs ! i))))
                        (lng (destination (hd (submit_clusters reqs ! i))))
                        (lat (destination r)) (lng (destination r)) < 20"
proof -
  let ?ok = "\<lambda>seed r. getDistance (lat (destination seed)) (lng (destination seed))
                                    (lat (destination r)) (lng (destination r)) < 20"
  have g: "submit_clusters reqs = seeded_groups None ?ok reqs"
    by (rule submit_clusters_seeded [OF assms(1)])
  have "\<not> ?ok (hd (seeded_groups None ?ok reqs ! i)) r"
    using seeded_groups_maximal
      [where i = i and j = j and cap = None and ok = ?ok and xs = reqs and r = r]
      assms(2,3,4) g
    by simp
  then show ?thesis using g by simp
qed

text \<open>
  C2, as the code has it. Clustering is greedy and seeded: the first request not yet
  clustered opens a cluster and takes, in the order of the list, the requests not yet
  clustered that are compatible with it; the requests left over are grouped in the same
  way. In the demo (\<open>simulateRLOptimization\<close>, live-map version) a request is compatible
  with the seed when \<open>region || type\<close> of their destinations agree, and a cluster is closed
  at four requests: distance plays no part, every member has the seed's key, a request is
  left for a later cluster only if its key differs from the seed's of every earlier
  cluster that is not full, and two requests alone share a cluster exactly when their keys
  agree. That key is the region if present, else the category; the first version forms
  the same clusters whenever every destination declares a region. In the map application
  (\<open>submitRequest\<close>) a request is compatible with the seed when the great-circle distance
  between their destinations is below 20 km, and there is no cap: regions and categories
  play no part, every member lies within 20 km of the seed's destination, a request left
  for a later cluster lies 20 km or more from the seed's destination of every earlier
  cluster, and two requests alone share a cluster exactly when their destinations are less
  than 20 km apart.
\<close>

theorem compatibility_rule_of_the_code:
  "(rr_id a \<noteq> rr_id b \<longrightarrow>
      map lc_requests (simulateRLOptimization_live rnd [a, b])
        = (if region_or_type (rr_destination a) = region_or_type (rr_destination b)
           then [[a, b]] else [[a], [b]]))
   \<and> (\<forall>c\<in>set (simulateRLOptimization_live rnd reqs).
        length (lc_requests c) \<le> 4
        \<and> (\<forall>r\<in>set (lc_requests c).
              region_or_type (rr_destination (hd (lc_requests c)))
                = region_or_type (rr_destination r)))
   \<and> (region loc \<noteq> Some [] \<longrightarrow> region_or_type loc = destination_key loc)
   \<and> ((\<forall>r\<in>set reqs. region (rr_destination r) \<noteq> None \<and> region (rr_destination r) \<noteq> Some [])
        \<longrightarrow> map cl_requests (simulateRLOptimization rnd reqs)
              = map lc_requests (simulateRLOptimization_live rnd reqs))
   \<and> (req_id x \<noteq> req_id y \<longrightarrow>
      submit_clusters [x, y]
        = (if getDistance (lat (destination x)) (lng (destination x))
                          (lat (destination y)) (lng (destination y)) < 20
           then [[x, y]] else [[x], [y]]))
   \<and> (\<forall>c\<in>set (submit_clusters newRequests). \<forall>r\<in>set c.
        getDistance (lat (destination (hd c))) (lng (destination (hd c)))
                    (lat (destination r)) (lng (destination r)) < 20)
   \<and> (distinct (map rr_id reqs) \<longrightarrow>
        map lc_requests (simulateRLOptimization_live rnd reqs)
          = seeded_groups (Some 4)
              (\<lambda>seed r. region_or_type (rr_destination r) = region_or_type (rr_destination seed))
              reqs)
   \<and> (distinct (map req_id newRequests) \<longrightarrow>
        submit_clusters newRequests
          = seeded_groups None
              (\<lambda>seed r. getDistance (lat (destination seed)) (lng (destination seed))
                                     (lat (destination r)) (lng (destination r)) < 20)
              newRequests)
   \<and> (distinct (map rr_id reqs) \<and> i < j \<and> j < length (simulateRLOptimization_live rnd reqs)
        \<and> length (lc_requests (simulateRLOptimization_live rnd reqs ! i)) < 4
        \<longrightarrow> (\<forall>r\<in>set (lc_requests (simulateRLOptimization_live rnd reqs ! j)).
               region_or_type (rr_destination r)
                 \<noteq> region_or_type
                     (rr_destination (hd (lc_requests (simulateRLOptimization_live rnd reqs ! i))))))
   \<and> (distinct (map req_id newRequests) \<and> i < j \<and> j < length (submit_clusters newRequests)
        \<longrightarrow> (\<forall>r\<in>set (submit_clusters newRequests ! j).
               \<not> getDistance (lat (destination (hd (submit_clusters newRequests ! i))))
                              (lng (destination (hd (submit_clusters newRequests ! i))))
                              (lat (destination r)) (lng (destination r)) < 20))"
proof (intro conjI impI ballI)
  assume "rr_id a \<noteq> rr_id b"
  then show "map lc_requests (simulateRLOptimization_live rnd [a, b])
        = (if region_or_type (rr_destination a) = region_or_type (rr_destination b)
           then [[a, b]] else [[a], [b]])" by (rule live_pair)
next
  fix c assume "c \<in> set (simulateRLOptimization_live rnd reqs)"
  then show "length (lc_requests c) \<le> 4" using live_cluster_shape by blast
next
  fix c r assume "c \<in> set (simulateRLOptimization_live rnd reqs)" "r \<in> set (lc_requests c)"
  then show "region_or_type (rr_destination (hd (lc_requests c)))
               = region_or_type (rr_destination r)"
    using live_cluster_shape by blast
next
  assume "region loc \<noteq> Some []"
  then show "region_or_type loc = destination_key loc" by (rule region_or_type_key)
next
  assume "\<forall>r\<in>set reqs. region (rr_destination r) \<noteq> None \<and> region (rr_destination r) \<noteq> Some []"
  then show "map cl_requests (simulateRLOptimization rnd reqs)
              = map lc_requests (simulateRLOptimization_live rnd reqs)"
    by (rule region_only_agrees)
next
  assume "req_id x \<noteq> req_id y"
  then show "submit_clusters [x, y]
        = (if getDistance (lat (destination x)) (lng (destination x))
                          (lat (destination y)) (lng (destination y)) < 20
           then [[x, y]] else [[x], [y]])" by (rule submit_pair)
next
  fix c r assume "c \<in> set (submit_clusters newRequests)" "r \<in> set c"
  then show "getDistance (lat (destination (hd c))) (lng (destination (hd c)))
                    (lat (destination r)) (lng (destination r)) < 20"
    using submit_cluster_shape by blast
next
  assume "distinct (map rr_id reqs)"
  then show "map lc_requests (simulateRLOptimization_live rnd reqs)
          = seeded_groups (Some 4)
              (\<lambda>seed r. region_or_type (rr_destination r) = region_or_type (rr_destination seed))
              reqs"
    by (rule live_clusters_seeded)
next
  assume "distinct (map req_id newRequests)"
  then show "submit_clusters newRequests
          = seeded_groups None
              (\<lambda>seed r. getDistance (lat (destination seed)) (lng (destination seed))
                                     (lat (destination r)) (lng (destination r)) < 20)
              newRequests"
    by (rule submit_clusters_seeded)
next
  fix r
  assume h: "distinct (map rr_id reqs) \<and> i < j \<and> j < length (simulateRLOptimization_live rnd reqs)
        \<and> length (lc_requests (simulateRLOptimization_live rnd reqs ! i)) < 4"
    and r: "r \<in> set (lc_requests (simulateRLOptimization_live rnd reqs ! j))"
  show "region_or_type (rr_destination r)
          \<noteq> region_or_type
              (rr_destination (hd (lc_requests (simulateRLOptimization_live rnd reqs ! i))))"
    using live_maximal [of reqs i j rnd r] h r by blast
next
  fix r
  assume h: "distinct (map req_id newRequests) \<and> i < j \<and> j < length (submit_clusters newRequests)"
    and r: "r \<in> set (submit_clusters newRequests ! j)"
  show "\<not> getDistance (lat (destination (hd (submit_clusters newRequests ! i))))
                              (lng (destination (hd (submit_clusters newRequests ! i))))
                              (lat (destination r)) (lng (destination r)) < 20"
    using submit_maximal [of newRequests i j r] h r by blast
qed

lemma sample_pending_clusters:
  "map cl_requests (simulateRLOptimization rnd sample_pending)
     = [[ride ''a'' demo_kakopetria 2, ride ''c'' demo_platres 3], [ride ''b'' demo_lefkara 1]]"
  by (simp add: simulateRLOptimization_def sample_pending_def ride_def make_cluster_def
      demo_kakopetria_def demo_platres_def demo_lefkara_def)

lemma sample_pending_live_clusters:
  "map lc_requests (simulateRLOptimization_live rnd sample_pending)
     = [[ride ''a'' demo_kakopetria 2, ride ''c'' demo_platres 3], [ride ''b'' demo_lefkara 1]]"
  by (simp add: live_requests live_admit_def region_or_type_def sample_pending_def ride_def
      demo_kakopetria_def demo_platres_def demo_lefkara_def)

lemma sample_trips_clusters: "submit_clusters sample_trips = [sample_trips]"
  by (simp add: submit_clusters_def sample_trips_def trip_def getDistance_same)

lemma nearby_trips_clusters: "submit_clusters nearby_trips = [nearby_trips]"
  by (simp add: submit_clusters_def nearby_trips_def trip_def map_protaras_def map_figtree_def
      getDistance_same)

lemma mixed_trips_clusters:
  "submit_clusters mixed_trips
     = [[trip ''a'' map_limassol map_nicosia 1, trip ''c'' map_kakopetria map_nicosia 3],
        [trip ''b'' map_nicosia map_limassol 2]]"
  by (simp add: submit_clusters_def mixed_trips_def trip_def getDistance_same
      nicosia_far_from_limassol)

theorem compatibility_rule_of_the_code_witness:
  "map lc_requests
       (simulateRLOptimization_live sample_random
          [ride ''a'' demo_nissi 2, ride ''b'' demo_kourion 1])
     = [[ride ''a'' demo_nissi 2], [ride ''b'' demo_kourion 1]]
   \<and> length (lc_requests (hd (simulateRLOptimization_live sample_random sample_pending))) \<le> 4
   \<and> region_or_type
        (rr_destination (hd (lc_requests (hd (simulateRLOptimization_live sample_random sample_pending)))))
       = region_or_type
           (rr_destination (last (lc_requests (hd (simulateRLOptimization_live sample_random sample_pending)))))
   \<and> region_or_type demo_nissi = destination_key demo_nissi
   \<and> map cl_requests (simulateRLOptimization sample_random sample_pending)
       = map lc_requests (simulateRLOptimization_live sample_random sample_pending)
   \<and> submit_clusters
        [trip ''a'' map_nicosia map_kakopetria 20, trip ''b'' map_limassol map_kakopetria 20]
     = [[trip ''a'' map_nicosia map_kakopetria 20, trip ''b'' map_limassol map_kakopetria 20]]
   \<and> getDistance (lat (destination (hd (hd (submit_clusters sample_trips)))))
                  (lng (destination (hd (hd (submit_clusters sample_trips)))))
                  (lat (destination (last (hd (submit_clusters sample_trips)))))
                  (lng (destination (last (hd (submit_clusters sample_trips))))) < 20
   \<and> seeded_groups (Some 4)
         (\<lambda>seed r. region_or_type (rr_destination r) = region_or_type (rr_destination seed))
         sample_pending
       = [[ride ''a'' demo_kakopetria 2, ride ''c'' demo_platres 3], [ride ''b'' demo_lefkara 1]]
   \<and> seeded_groups None
         (\<lambda>seed r. getDistance (lat (destination seed)) (lng (destination seed))
                                (lat (destination r)) (lng (destination r)) < 20)
         sample_trips
       = [sample_trips]
   \<and> region_or_type (rr_destination (ride ''b'' demo_lefkara 1))
       \<noteq> region_or_type (rr_destination (ride ''a'' demo_kakopetria 2))
   \<and> submit_clusters [trip ''a'' map_limassol map_nicosia 1, trip ''b'' map_nicosia map_limassol 2]
       = [[trip ''a'' map_limassol map_nicosia 1], [trip ''b'' map_nicosia map_limassol 2]]
   \<and> seeded_groups None
         (\<lambda>seed r. getDistance (lat (destination seed)) (lng (destination seed))
                                (lat (destination r)) (lng (destination r)) < 20)
         mixed_trips
       = [[trip ''a'' map_limassol map_nicosia 1, trip ''c'' map_kakopetria map_nicosia 3],
          [trip ''b'' map_nicosia map_limassol 2]]
   \<and> \<not> getDistance (lat map_nicosia) (lng map_nicosia) (lat map_limassol) (lng map_limassol) < 20"
proof -
  note t = compatibility_rule_of_the_code
    [of "ride ''a'' demo_nissi 2" "ride ''b'' demo_kourion 1" sample_random sample_pending
        demo_nissi
        "trip ''a'' map_nicosia map_kakopetria 20" "trip ''b'' map_limassol map_kakopetria 20"
        sample_trips 0 1]
  note t2 = compatibility_rule_of_the_code
    [of "ride ''a'' demo_nissi 2" "ride ''b'' demo_kourion 1" sample_random sample_pending
        demo_nissi
        "trip ''a'' map_limassol map_nicosia 1" "trip ''b'' map_nicosia map_limassol 2"
        mixed_trips 0 1]
  let ?S = "simulateRLOptimization_live sample_random sample_pending"
  have "rr_id (ride ''a'' demo_nissi 2) \<noteq> rr_id (ride ''b'' demo_kourion 1)"
    by (simp add: ride_def)
  moreover have "region_or_type (rr_destination (ride ''a'' demo_nissi 2))
                   \<noteq> region_or_type (rr_destination (ride ''b'' demo_kourion 1))"
    by (simp add: ride_def demo_nissi_def demo_kourion_def region_or_type_def)
  ultimately have c1: "map lc_requests
       (simulateRLOptimization_live sample_random
          [ride ''a'' demo_nissi 2, ride ''b'' demo_kourion 1])
     = [[ride ''a'' demo_nissi 2], [ride ''b'' demo_kourion 1]]"
    using t [THEN conjunct1] by simp
  have "?S \<noteq> []" using sample_pending_live_clusters [of sample_random] by auto
  then have m: "hd ?S \<in> set ?S" by simp
  have q: "length (lc_requests (hd ?S)) \<le> 4
      \<and> (\<forall>r\<in>set (lc_requests (hd ?S)).
            region_or_type (rr_destination (hd (lc_requests (hd ?S))))
              = region_or_type (rr_destination r))"
    using t [THEN conjunct2, THEN conjunct1] m by blast
  have "lc_requests (hd ?S) = hd (map lc_requests ?S)" using \<open>?S \<noteq> []\<close> by (simp add: hd_map)
  then have "lc_requests (hd ?S) \<noteq> []" by (simp add: sample_pending_live_clusters)
  then have "last (lc_requests (hd ?S)) \<in> set (lc_requests (hd ?S))" by simp
  then have c3: "region_or_type (rr_destination (hd (lc_requests (hd ?S))))
                  = region_or_type (rr_destination (last (lc_requests (hd ?S))))"
    using q by blast
  have "region demo_nissi \<noteq> Some []" by (simp add: demo_nissi_def)
  then have c4: "region_or_type demo_nissi = destination_key demo_nissi"
    using t [THEN conjunct2, THEN conjunct2, THEN conjunct1] by blast
  have "\<forall>r\<in>set sample_pending.
          region (rr_destination r) \<noteq> None \<and> region (rr_destination r) \<noteq> Some []"
    by (simp add: sample_pending_def ride_def demo_kakopetria_def demo_platres_def
        demo_lefkara_def)
  then have c5: "map cl_requests (simulateRLOptimization sample_random sample_pending)
       = map lc_requests ?S"
    using t [THEN conjunct2, THEN conjunct2, THEN conjunct2, THEN conjunct1] by blast
  have "req_id (trip ''a'' map_nicosia map_kakopetria 20)
          \<noteq> req_id (trip ''b'' map_limassol map_kakopetria 20)"
    by (simp add: trip_def)
  moreover have "getDistance
       (lat (destination (trip ''a'' map_nicosia map_kakopetria 20)))
       (lng (destination (trip ''a'' map_nicosia map_kakopetria 20)))
       (lat (destination (trip ''b'' map_limassol map_kakopetria 20)))
       (lng (destination (trip ''b'' map_limassol map_kakopetria 20))) < 20"
    by (simp add: trip_def getDistance_same)
  ultimately have c6: "submit_clusters
        [trip ''a'' map_nicosia map_kakopetria 20, trip ''b'' map_limassol map_kakopetria 20]
     = [[trip ''a'' map_nicosia map_kakopetria 20, trip ''b'' map_limassol map_kakopetria 20]]"
    using t [THEN conjunct2, THEN conjunct2, THEN conjunct2, THEN conjunct2, THEN conjunct1]
    by simp
  have m2: "hd (submit_clusters sample_trips) \<in> set (submit_clusters sample_trips)"
    by (simp add: sample_trips_clusters)
  have "hd (submit_clusters sample_trips) \<noteq> []"
    by (simp add: sample_trips_clusters) (simp add: sample_trips_def)
  then have "last (hd (submit_clusters sample_trips)) \<in> set (hd (submit_clusters sample_trips))"
    by (rule last_in_set)
  then have c7: "getDistance (lat (destination (hd (hd (submit_clusters sample_trips)))))
                  (lng (destination (hd (hd (submit_clusters sample_trips)))))
                  (lat (destination (last (hd (submit_clusters sample_trips)))))
                  (lng (destination (last (hd (submit_clusters sample_trips))))) < 20"
    using t [THEN conjunct2, THEN conjunct2, THEN conjunct2, THEN conjunct2, THEN conjunct2,
             THEN conjunct1]
      m2 by blast
  have "distinct (map rr_id sample_pending)" by (simp add: sample_pending_def ride_def)
  then have "map lc_requests ?S
       = seeded_groups (Some 4)
           (\<lambda>seed r. region_or_type (rr_destination r) = region_or_type (rr_destination seed))
           sample_pending"
    using t [THEN conjunct2, THEN conjunct2, THEN conjunct2, THEN conjunct2, THEN conjunct2,
             THEN conjunct2, THEN conjunct1]
    by blast
  then have c8: "seeded_groups (Some 4)
         (\<lambda>seed r. region_or_type (rr_destination r) = region_or_type (rr_destination seed))
         sample_pending
       = [[ride ''a'' demo_kakopetria 2, ride ''c'' demo_platres 3], [ride ''b'' demo_lefkara 1]]"
    by (simp only: sample_pending_live_clusters)
  have "distinct (map req_id sample_trips)" by (simp add: sample_trips_def trip_def)
  then have "submit_clusters sample_trips
       = seeded_groups None
           (\<lambda>seed r. getDistance (lat (destination seed)) (lng (destination seed))
                                  (lat (destination r)) (lng (destination r)) < 20)
           sample_trips"
    using t [THEN conjunct2, THEN conjunct2, THEN conjunct2, THEN conjunct2, THEN conjunct2,
             THEN conjunct2, THEN conjunct2, THEN conjunct1]
    by blast
  then have c9: "seeded_groups None
         (\<lambda>seed r. getDistance (lat (destination seed)) (lng (destination seed))
                                (lat (destination r)) (lng (destination r)) < 20)
         sample_trips
       = [sample_trips]"
    by (simp only: sample_trips_clusters)
  have "length (map lc_requests ?S) = 2" by (simp only: sample_pending_live_clusters) simp
  then have len: "length ?S = 2" by simp
  have n0: "lc_requests (?S ! 0) = [ride ''a'' demo_kakopetria 2, ride ''c'' demo_platres 3]"
    using nth_map [of 0 ?S lc_requests] len
    by (simp add: sample_pending_live_clusters)
  have n1: "lc_requests (?S ! 1) = [ride ''b'' demo_lefkara 1]"
    using nth_map [of 1 ?S lc_requests] len
    by (simp add: sample_pending_live_clusters)
  have "distinct (map rr_id sample_pending) \<and> (0::nat) < 1 \<and> 1 < length ?S
          \<and> length (lc_requests (?S ! 0)) < 4"
    using len n0 by (simp add: sample_pending_def ride_def)
  then have "\<forall>r\<in>set (lc_requests (?S ! 1)).
               region_or_type (rr_destination r)
                 \<noteq> region_or_type (rr_destination (hd (lc_requests (?S ! 0))))"
    using t [THEN conjunct2, THEN conjunct2, THEN conjunct2, THEN conjunct2, THEN conjunct2,
             THEN conjunct2, THEN conjunct2, THEN conjunct2, THEN conjunct1]
    by blast
  then have c10: "region_or_type (rr_destination (ride ''b'' demo_lefkara 1))
       \<noteq> region_or_type (rr_destination (ride ''a'' demo_kakopetria 2))"
    unfolding n0 n1 by simp
  have far: "\<forall>r\<in>set (submit_clusters mixed_trips ! 1).
               \<not> getDistance (lat (destination (hd (submit_clusters mixed_trips ! 0))))
                              (lng (destination (hd (submit_clusters mixed_trips ! 0))))
                              (lat (destination r)) (lng (destination r)) < 20"
  proof -
    have "distinct (map req_id mixed_trips) \<and> (0::nat) < 1 \<and> 1 < length (submit_clusters mixed_trips)"
      by (simp add: mixed_trips_clusters) (simp add: mixed_trips_def trip_def)
    then show ?thesis
      using t2 [THEN conjunct2, THEN conjunct2, THEN conjunct2, THEN conjunct2, THEN conjunct2,
                THEN conjunct2, THEN conjunct2, THEN conjunct2, THEN conjunct2]
      by blast
  qed
  have c13: "\<not> getDistance (lat map_nicosia) (lng map_nicosia) (lat map_limassol) (lng map_limassol) < 20"
    using far by (simp add: mixed_trips_clusters trip_def)
  have "req_id (trip ''a'' map_limassol map_nicosia 1) \<noteq> req_id (trip ''b'' map_nicosia map_limassol 2)"
    by (simp add: trip_def)
  then have "submit_clusters [trip ''a'' map_limassol map_nicosia 1, trip ''b'' map_nicosia map_limassol 2]
        = (if getDistance (lat (destination (trip ''a'' map_limassol map_nicosia 1)))
                          (lng (destination (trip ''a'' map_limassol map_nicosia 1)))
                          (lat (destination (trip ''b'' map_nicosia map_limassol 2)))
                          (lng (destination (trip ''b'' map_nicosia map_limassol 2))) < 20
           then [[trip ''a'' map_limassol map_nicosia 1, trip ''b'' map_nicosia map_limassol 2]]
           else [[trip ''a'' map_limassol map_nicosia 1], [trip ''b'' map_nicosia map_limassol 2]])"
    using t2 [THEN conjunct2, THEN conjunct2, THEN conjunct2, THEN conjunct2, THEN conjunct1]
    by blast
  moreover have "destination (trip ''a'' map_limassol map_nicosia 1) = map_nicosia"
    "destination (trip ''b'' map_nicosia map_limassol 2) = map_limassol"
    by (simp_all add: trip_def)
  ultimately have c11: "submit_clusters
        [trip ''a'' map_limassol map_nicosia 1, trip ''b'' map_nicosia map_limassol 2]
       = [[trip ''a'' map_limassol map_nicosia 1], [trip ''b'' map_nicosia map_limassol 2]]"
    using c13 by simp
  have "distinct (map req_id mixed_trips)" by (simp add: mixed_trips_def trip_def)
  then have "submit_clusters mixed_trips
       = seeded_groups None
           (\<lambda>seed r. getDistance (lat (destination seed)) (lng (destination seed))
                                  (lat (destination r)) (lng (destination r)) < 20)
           mixed_trips"
    using t2 [THEN conjunct2, THEN conjunct2, THEN conjunct2, THEN conjunct2, THEN conjunct2,
              THEN conjunct2, THEN conjunct2, THEN conjunct1]
    by blast
  then have c12: "seeded_groups None
         (\<lambda>seed r. getDistance (lat (destination seed)) (lng (destination seed))
                                (lat (destination r)) (lng (destination r)) < 20)
         mixed_trips
       = [[trip ''a'' map_limassol map_nicosia 1, trip ''c'' map_kakopetria map_nicosia 3],
          [trip ''b'' map_nicosia map_limassol 2]]"
    by (simp only: mixed_trips_clusters)
  show ?thesis using c1 q c3 c4 c5 c6 c7 c8 c9 c10 c11 c12 c13 by blast
qed

text \<open>
  C2, as the specification states it, fails in the map application. Protaras (a city) and Fig Tree
  Bay (a beach) lie on the same coordinates and carry no region, so their keys (region if
  present, else category) differ, yet \<open>submitRequest\<close> puts requests to them into one
  cluster, because their destinations are less than 20 km apart.
\<close>

theorem differing_keys_share_a_cluster:
  "destination_key (destination (trip ''a'' map_nicosia map_protaras 1))
     \<noteq> destination_key (destination (trip ''b'' map_nicosia map_figtree 1))
   \<and> getDistance (lat map_protaras) (lng map_protaras) (lat map_figtree) (lng map_figtree) < 20
   \<and> submit_clusters [trip ''a'' map_nicosia map_protaras 1, trip ''b'' map_nicosia map_figtree 1]
       = [[trip ''a'' map_nicosia map_protaras 1, trip ''b'' map_nicosia map_figtree 1]]"
  using nearby_trips_clusters
  by (simp add: nearby_trips_def destination_key_def trip_def map_protaras_def map_figtree_def
      getDistance_same)

text \<open>
  The first version of \<open>simulateRLOptimization\<close> treats two absent regions as equal: it
  puts a request to Nissi Beach and one to Kourion into one cluster, where the later
  version, comparing \<open>region || type\<close>, keeps them apart.
\<close>

lemma region_only_merges_regionless:
  "map cl_requests
       (simulateRLOptimization sample_random [ride ''a'' demo_nissi 2, ride ''b'' demo_kourion 1])
     = [[ride ''a'' demo_nissi 2, ride ''b'' demo_kourion 1]]
   \<and> map lc_requests
       (simulateRLOptimization_live sample_random
          [ride ''a'' demo_nissi 2, ride ''b'' demo_kourion 1])
     = [[ride ''a'' demo_nissi 2], [ride ''b'' demo_kourion 1]]"
  by (simp add: simulateRLOptimization_def make_cluster_def live_requests live_admit_def
      region_or_type_def ride_def demo_nissi_def demo_kourion_def)

section \<open>Passenger totals of clusters\<close>

lemma foldl_add_sum: "foldl (\<lambda>sum r. sum + f r) (a::int) xs = a + sum_list (map f xs)"
  by (induction xs arbitrary: a) simp_all

lemma sim_outer_made:
  "\<forall>c\<in>set cls. \<exists>k. c = make_cluster rnd k (cl_requests c)
     \<Longrightarrow> \<forall>c\<in>set (snd (sim_outer rnd all todo (p, cls))).
           \<exists>k. c = make_cluster rnd k (cl_requests c)"
proof (induction todo arbitrary: p cls)
  case Nil
  then show ?case by simp
next
  case (Cons req rest)
  show ?case
  proof (cases "rr_id req \<in> p")
    case True
    then show ?thesis using Cons.IH [OF Cons.prems] by simp
  next
    case False
    obtain u c where s: "sim_inner req all (insert (rr_id req) p, [req]) = (u, c)"
      by (cases "sim_inner req all (insert (rr_id req) p, [req])")
    let ?cls = "if length c > 0 then cls @ [make_cluster rnd (length cls) c] else cls"
    have "make_cluster rnd (length cls) c
            = make_cluster rnd (length cls) (cl_requests (make_cluster rnd (length cls) c))"
      by (simp add: make_cluster_def)
    then have q: "\<forall>c\<in>set ?cls. \<exists>k. c = make_cluster rnd k (cl_requests c)"
      using Cons.prems by auto
    have g: "sim_outer rnd all (req # rest) (p, cls) = sim_outer rnd all rest (u, ?cls)"
      using False s by simp
    show ?thesis unfolding g by (rule Cons.IH [OF q])
  qed
qed

lemma sim_made:
  "c \<in> set (simulateRLOptimization rnd reqs) \<Longrightarrow> \<exists>k. c = make_cluster rnd k (cl_requests c)"
  using sim_outer_made [of "[]" rnd reqs reqs "{}"] by (simp add: simulateRLOptimization_def)

lemma sim_total:
  assumes "c \<in> set (simulateRLOptimization rnd reqs)"
  shows "totalPassengers c = sum_list (map rr_passengers (cl_requests c))"
proof -
  obtain k where "c = make_cluster rnd k (cl_requests c)" using sim_made [OF assms] by blast
  then have "totalPassengers c = totalPassengers (make_cluster rnd k (cl_requests c))" by simp
  then show ?thesis by (simp add: make_cluster_def foldl_add_sum)
qed

lemma sim_co2Saved:
  assumes "c \<in> set (simulateRLOptimization rnd reqs)"
  shows "co2Saved c = toFixed1 (real (length (cl_requests c)) * 2.5)"
proof -
  obtain k where "c = make_cluster rnd k (cl_requests c)" using sim_made [OF assms] by blast
  then have "co2Saved c = co2Saved (make_cluster rnd k (cl_requests c))" by simp
  then show ?thesis by (simp add: make_cluster_def)
qed

lemma sim_members:
  assumes "c \<in> set (simulateRLOptimization rnd reqs)"
  shows "set (cl_requests c) \<subseteq> set reqs"
proof -
  have "grouped rr_id reqs (grouping rr_id sim_admit reqs reqs ({}, []))"
    by (rule grouping_grouped) (simp_all add: grouped_def)
  then have "set (concat (map cl_requests (simulateRLOptimization rnd reqs))) \<subseteq> set reqs"
    by (simp only: grouped_def simulate_requests)
  then show ?thesis using assms by auto
qed

lemma live_outer_made:
  "\<forall>c\<in>set cls. \<exists>k. c = make_live_cluster rnd k (lc_requests c)
     \<Longrightarrow> \<forall>c\<in>set (snd (live_outer rnd all todo (p, cls))).
           \<exists>k. c = make_live_cluster rnd k (lc_requests c)"
proof (induction todo arbitrary: p cls)
  case Nil
  then show ?case by simp
next
  case (Cons req rest)
  show ?case
  proof (cases "rr_id req \<in> p")
    case True
    then show ?thesis using Cons.IH [OF Cons.prems] by simp
  next
    case False
    obtain u c where s: "live_inner req all (insert (rr_id req) p, [req]) = (u, c)"
      by (cases "live_inner req all (insert (rr_id req) p, [req])")
    let ?cls = "if length c > 0 then cls @ [make_live_cluster rnd (length cls) c] else cls"
    have "make_live_cluster rnd (length cls) c
            = make_live_cluster rnd (length cls)
                (lc_requests (make_live_cluster rnd (length cls) c))"
      by (simp add: make_live_cluster_def Let_def)
    then have q: "\<forall>c\<in>set ?cls. \<exists>k. c = make_live_cluster rnd k (lc_requests c)"
      using Cons.prems by auto
    have g: "live_outer rnd all (req # rest) (p, cls) = live_outer rnd all rest (u, ?cls)"
      using False s by simp
    show ?thesis unfolding g by (rule Cons.IH [OF q])
  qed
qed

lemma live_made:
  "c \<in> set (simulateRLOptimization_live rnd reqs)
     \<Longrightarrow> \<exists>k. c = make_live_cluster rnd k (lc_requests c)"
  using live_outer_made [of "[]" rnd reqs reqs "{}"]
  by (simp add: simulateRLOptimization_live_def)

lemma live_total:
  assumes "c \<in> set (simulateRLOptimization_live rnd reqs)"
  shows "lc_totalPassengers c = sum_list (map rr_passengers (lc_requests c))"
proof -
  obtain k where "c = make_live_cluster rnd k (lc_requests c)"
    using live_made [OF assms] by blast
  then have "lc_totalPassengers c = lc_totalPassengers (make_live_cluster rnd k (lc_requests c))"
    by simp
  then show ?thesis by (simp add: make_live_cluster_def Let_def foldl_add_sum)
qed

lemma live_co2Saved:
  assumes "c \<in> set (simulateRLOptimization_live rnd reqs)"
  shows "lc_co2Saved c = toFixed1 (real (length (lc_requests c)) * 2.5)"
proof -
  obtain k where "c = make_live_cluster rnd k (lc_requests c)"
    using live_made [OF assms] by blast
  then have "lc_co2Saved c = lc_co2Saved (make_live_cluster rnd k (lc_requests c))" by simp
  then show ?thesis by (simp add: make_live_cluster_def Let_def)
qed

lemma live_members:
  assumes "c \<in> set (simulateRLOptimization_live rnd reqs)"
  shows "set (lc_requests c) \<subseteq> set reqs"
proof -
  have "grouped rr_id reqs (grouping rr_id live_admit reqs reqs ({}, []))"
    by (rule grouping_grouped) (simp_all add: grouped_def)
  then have "set (concat (map lc_requests (simulateRLOptimization_live rnd reqs))) \<subseteq> set reqs"
    by (simp only: grouped_def live_requests)
  then show ?thesis using assms by auto
qed

lemma sum_list_bounded:
  "\<forall>x\<in>set xs. f x \<le> (m::int) \<Longrightarrow> sum_list (map f xs) \<le> int (length xs) * m"
  by (induction xs) (auto simp: algebra_simps)

lemma build_route_passengers:
  "r_passengers (build_route osrm rid cluster) = sum_list (map passengers cluster)"
  by (simp add: build_route_def Let_def foldl_add_sum)


lemma sum_list_at_least:
  "\<forall>x\<in>set xs. (m::int) \<le> f x \<Longrightarrow> int (length xs) * m \<le> sum_list (map f xs)"
  by (induction xs) (auto simp: algebra_simps)

lemma generateRideRequest_passengers:
  assumes "unit_interval (gen_passengers env)"
  shows "1 \<le> rr_passengers (generateRideRequest env) \<and> rr_passengers (generateRideRequest env) \<le> 4"
proof -
  have "0 \<le> gen_passengers env * 4" and "gen_passengers env * 4 < 4"
    using assms by (simp_all add: unit_interval_def)
  then have "0 \<le> \<lfloor>gen_passengers env * 4\<rfloor>" and "\<lfloor>gen_passengers env * 4\<rfloor> < 4"
    by (simp_all add: floor_less_iff)
  then show ?thesis by (simp add: generateRideRequest_def Let_def)
qed

text \<open>
  Bounds on a cluster built from requests of one to four passengers each.
\<close>

lemma bounded_cluster_total:
  assumes "c \<noteq> []" "length c \<le> 4"
    and "\<forall>r\<in>set c. 1 \<le> rr_passengers r \<and> rr_passengers r \<le> 4"
  shows "1 \<le> sum_list (map rr_passengers c) \<and> sum_list (map rr_passengers c) \<le> 16"
proof -
  have "int (length c) * 1 \<le> sum_list (map rr_passengers c)"
    by (rule sum_list_at_least) (use assms(3) in blast)
  moreover have "1 \<le> int (length c)" using assms(1) by (cases c) simp_all
  moreover have "sum_list (map rr_passengers c) \<le> int (length c) * 4"
    by (rule sum_list_bounded) (use assms(3) in blast)
  ultimately show ?thesis using assms(2) by simp
qed

lemma sim_bounded:
  assumes "\<forall>r\<in>set reqs. 1 \<le> rr_passengers r \<and> rr_passengers r \<le> 4"
    and "c \<in> set (simulateRLOptimization rnd reqs)"
  shows "1 \<le> totalPassengers c \<and> totalPassengers c \<le> 16"
proof -
  have "\<forall>r\<in>set (cl_requests c). 1 \<le> rr_passengers r \<and> rr_passengers r \<le> 4"
    using assms(1) sim_members [OF assms(2)] by blast
  then show ?thesis
    using bounded_cluster_total [of "cl_requests c"] sim_cluster_shape [OF assms(2)]
      sim_total [OF assms(2)]
    by simp
qed

lemma live_bounded:
  assumes "\<forall>r\<in>set reqs. 1 \<le> rr_passengers r \<and> rr_passengers r \<le> 4"
    and "c \<in> set (simulateRLOptimization_live rnd reqs)"
  shows "1 \<le> lc_totalPassengers c \<and> lc_totalPassengers c \<le> 16"
proof -
  have "\<forall>r\<in>set (lc_requests c). 1 \<le> rr_passengers r \<and> rr_passengers r \<le> 4"
    using assms(1) live_members [OF assms(2)] by blast
  then show ?thesis
    using bounded_cluster_total [of "lc_requests c"] live_cluster_shape [OF assms(2)]
      live_total [OF assms(2)]
    by simp
qed

text \<open>
  What every step of the demo preserves: stored requests carry one to four passengers,
  published clusters one to sixteen.
\<close>

lemma demo_step_bounded:
  assumes "random_in_range e"
    and "\<forall>r\<in>set (rideRequests s). 1 \<le> rr_passengers r \<and> rr_passengers r \<le> 4"
    and "\<forall>c\<in>set (optimizedRoutes s). 1 \<le> totalPassengers c \<and> totalPassengers c \<le> 16"
  shows "(\<forall>r\<in>set (rideRequests (demo_step e s)). 1 \<le> rr_passengers r \<and> rr_passengers r \<le> 4)
     \<and> (\<forall>c\<in>set (optimizedRoutes (demo_step e s)). 1 \<le> totalPassengers c \<and> totalPassengers c \<le> 16)"
proof (cases e)
  case (Tick env)
  have "unit_interval (gen_passengers env)" using assms(1) Tick by simp
  then show ?thesis
    using Tick assms(2,3) generateRideRequest_passengers [of env]
    by (auto simp: request_tick_def)
next
  case (SelectOrigin city)
  then show ?thesis using assms(2,3) by simp
next
  case (SelectDestination loc)
  then show ?thesis using assms(2,3) by simp
next
  case (RequestRide env)
  then show ?thesis
    using assms(2,3) by (auto simp: handleRequestRide_def Let_def split: option.splits)
next
  case (Optimize rnd)
  let ?pending = "filter (\<lambda>r. rr_status r = Pending) (rideRequests s)"
  have p: "\<forall>r\<in>set ?pending. 1 \<le> rr_passengers r \<and> rr_passengers r \<le> 4"
    using assms(2) by simp
  have c: "\<forall>c\<in>set (simulateRLOptimization rnd ?pending).
             1 \<le> totalPassengers c \<and> totalPassengers c \<le> 16"
    using sim_bounded [OF p] by blast
  show ?thesis
  proof (cases "3 \<le> length ?pending")
    case True
    then have "rideRequests (demo_step e s)
                 = map (\<lambda>r. r \<lparr> rr_status := Assigned \<rparr>) (rideRequests s)"
      and "optimizedRoutes (demo_step e s) = simulateRLOptimization rnd ?pending"
      using Optimize by (simp_all add: optimization_effect_def Let_def)
    then show ?thesis using assms(2) c by auto
  next
    case False
    then have "demo_step e s = s" using Optimize by (simp add: optimization_effect_def)
    then show ?thesis using assms(2,3) by simp
  qed
qed

lemma demo_foldl_bounded:
  "\<forall>e\<in>set events. random_in_range e
     \<Longrightarrow> \<forall>r\<in>set (rideRequests s). 1 \<le> rr_passengers r \<and> rr_passengers r \<le> 4
     \<Longrightarrow> \<forall>c\<in>set (optimizedRoutes s). 1 \<le> totalPassengers c \<and> totalPassengers c \<le> 16
     \<Longrightarrow> (\<forall>r\<in>set (rideRequests (foldl (\<lambda>s e. demo_step e s) s events)).
            1 \<le> rr_passengers r \<and> rr_passengers r \<le> 4)
       \<and> (\<forall>c\<in>set (optimizedRoutes (foldl (\<lambda>s e. demo_step e s) s events)).
            1 \<le> totalPassengers c \<and> totalPassengers c \<le> 16)"
proof (induction events arbitrary: s)
  case Nil
  then show ?case by simp
next
  case (Cons e events)
  have r: "random_in_range e" and rs: "\<forall>e\<in>set events. random_in_range e"
    using Cons.prems(1) by simp_all
  note st = demo_step_bounded [OF r Cons.prems(2) Cons.prems(3)]
  have "foldl (\<lambda>s e. demo_step e s) s (e # events)
          = foldl (\<lambda>s e. demo_step e s) (demo_step e s) events" by simp
  then show ?case
    using Cons.IH [OF rs st [THEN conjunct1] st [THEN conjunct2]] by (simp only:)
qed

lemma demo_run_bounded:
  assumes "\<forall>e\<in>set events. random_in_range e"
  shows "(\<forall>r\<in>set (rideRequests (demo_run events)). 1 \<le> rr_passengers r \<and> rr_passengers r \<le> 4)
     \<and> (\<forall>c\<in>set (optimizedRoutes (demo_run events)).
           1 \<le> totalPassengers c \<and> totalPassengers c \<le> 16)"
  unfolding demo_run_def
  by (rule demo_foldl_bounded [OF assms]) (simp_all add: demo_initial_def)

text \<open>The cap counts requests, and four of them fit whatever they carry.\<close>

lemma full_load_clusters:
  "map totalPassengers (simulateRLOptimization rnd full_load) = [16, 4]
   \<and> map lc_totalPassengers (simulateRLOptimization_live rnd full_load) = [16, 4]"
proof -
  have d: "distinct (map rr_id full_load)" by (simp add: full_load_def ride_def)
  have "map cl_requests (simulateRLOptimization rnd full_load)
          = [take 4 full_load, drop 4 full_load]"
    by (simp add: sim_clusters_seeded [OF d]) (simp add: full_load_def ride_def companions_def)
  moreover have "map lc_requests (simulateRLOptimization_live rnd full_load)
          = [take 4 full_load, drop 4 full_load]"
    by (simp add: live_clusters_seeded [OF d]) (simp add: full_load_def ride_def companions_def)
  moreover have "map totalPassengers (simulateRLOptimization rnd full_load)
          = map (\<lambda>c. sum_list (map rr_passengers c))
              (map cl_requests (simulateRLOptimization rnd full_load))"
    by (simp add: sim_total)
  moreover have "map lc_totalPassengers (simulateRLOptimization_live rnd full_load)
          = map (\<lambda>c. sum_list (map rr_passengers c))
              (map lc_requests (simulateRLOptimization_live rnd full_load))"
    by (simp add: live_total)
  ultimately show ?thesis by (simp add: full_load_def ride_def)
qed

text \<open>
  In the map application, requests whose destinations all lie within 20 km of the first
  one's form a single cluster, however many passengers they carry.
\<close>

lemma submit_single_cluster:
  assumes "distinct (map req_id reqs)" "reqs \<noteq> []"
    and "\<forall>r\<in>set reqs. getDistance (lat (destination (hd reqs))) (lng (destination (hd reqs)))
                                   (lat (destination r)) (lng (destination r)) < 20"
  shows "submit_clusters reqs = [reqs]"
proof -
  obtain s rest where r: "reqs = s # rest" using assms(2) by (cases reqs) simp_all
  have "\<forall>x\<in>set rest. getDistance (lat (destination s)) (lng (destination s))
                                   (lat (destination x)) (lng (destination x)) < 20"
    using assms(3) r by simp
  then have "seeded_groups None
           (\<lambda>seed r. getDistance (lat (destination seed)) (lng (destination seed))
                                  (lat (destination r)) (lng (destination r)) < 20)
           (s # rest) = [s # rest]"
    by (rule seeded_groups_single)
  then show ?thesis using submit_clusters_seeded [OF assms(1)] r by simp
qed

lemma build_routes_single:
  "map r_passengers (build_routes osrm ids [cluster]) = [sum_list (map passengers cluster)]"
  by (simp add: build_routes_def build_route_passengers)

text \<open>
  C3, as the code has it. \<open>simulateRLOptimization\<close>, in either version, closes a cluster at
  four requests, whatever they carry, so four requests of four passengers travel
  together; it tests no passenger total. \<open>generateRideRequest\<close> draws one to four
  passengers and \<open>handleRequestRide\<close> books one, so in every session of the demo the
  stored requests carry one to four passengers and a cluster one to sixteen. The
  clustering inside \<open>submitRequest\<close> has no capacity test at all: requests whose
  destinations all lie within 20 km of the first one's form one cluster and one route,
  carrying the sum of their passengers, whatever that sum is.
\<close>

theorem cluster_passenger_bounds:
  "(\<forall>c\<in>set (simulateRLOptimization rnd reqs).
       1 \<le> length (cl_requests c) \<and> length (cl_requests c) \<le> 4
       \<and> totalPassengers c = sum_list (map rr_passengers (cl_requests c)))
   \<and> (\<forall>c\<in>set (simulateRLOptimization_live rnd reqs).
       1 \<le> length (lc_requests c) \<and> length (lc_requests c) \<le> 4
       \<and> lc_totalPassengers c = sum_list (map rr_passengers (lc_requests c)))
   \<and> map totalPassengers (simulateRLOptimization rnd full_load) = [16, 4]
   \<and> map lc_totalPassengers (simulateRLOptimization_live rnd full_load) = [16, 4]
   \<and> (unit_interval (gen_passengers genv) \<longrightarrow>
        1 \<le> rr_passengers (generateRideRequest genv)
        \<and> rr_passengers (generateRideRequest genv) \<le> 4)
   \<and> ((\<forall>e\<in>set events. random_in_range e) \<longrightarrow>
        (\<forall>r\<in>set (rideRequests (demo_run events)).
            1 \<le> rr_passengers r \<and> rr_passengers r \<le> 4)
        \<and> (\<forall>c\<in>set (optimizedRoutes (demo_run events)).
            1 \<le> totalPassengers c \<and> totalPassengers c \<le> 16)
        \<and> (\<forall>c\<in>set (simulateRLOptimization_live rnd
                       (filter (\<lambda>r. rr_status r = Pending) (rideRequests (demo_run events)))).
            1 \<le> lc_totalPassengers c \<and> lc_totalPassengers c \<le> 16))
   \<and> (distinct (map req_id newRequests) \<and> newRequests \<noteq> []
        \<and> (\<forall>r\<in>set newRequests.
              getDistance (lat (destination (hd newRequests))) (lng (destination (hd newRequests)))
                          (lat (destination r)) (lng (destination r)) < 20)
        \<longrightarrow> submit_clusters newRequests = [newRequests]
            \<and> map r_passengers (build_routes osrm ids (submit_clusters newRequests))
                = [sum_list (map passengers newRequests)])"
proof (intro conjI impI ballI)
  fix c assume c: "c \<in> set (simulateRLOptimization rnd reqs)"
  show "1 \<le> length (cl_requests c)"
    using sim_cluster_shape [OF c] by (cases "cl_requests c") simp_all
  show "length (cl_requests c) \<le> 4" using sim_cluster_shape [OF c] by simp
  show "totalPassengers c = sum_list (map rr_passengers (cl_requests c))" by (rule sim_total [OF c])
next
  fix c assume c: "c \<in> set (simulateRLOptimization_live rnd reqs)"
  show "1 \<le> length (lc_requests c)"
    using live_cluster_shape [OF c] by (cases "lc_requests c") simp_all
  show "length (lc_requests c) \<le> 4" using live_cluster_shape [OF c] by simp
  show "lc_totalPassengers c = sum_list (map rr_passengers (lc_requests c))"
    by (rule live_total [OF c])
next
  show "map totalPassengers (simulateRLOptimization rnd full_load) = [16, 4]"
    using full_load_clusters by blast
  show "map lc_totalPassengers (simulateRLOptimization_live rnd full_load) = [16, 4]"
    using full_load_clusters by blast
next
  assume u: "unit_interval (gen_passengers genv)"
  show "1 \<le> rr_passengers (generateRideRequest genv)"
    using generateRideRequest_passengers [OF u] by blast
  show "rr_passengers (generateRideRequest genv) \<le> 4"
    using generateRideRequest_passengers [OF u] by blast
next
  fix r assume e: "\<forall>e\<in>set events. random_in_range e" and r: "r \<in> set (rideRequests (demo_run events))"
  show "1 \<le> rr_passengers r" using demo_run_bounded [OF e] r by blast
  show "rr_passengers r \<le> 4" using demo_run_bounded [OF e] r by blast
next
  fix c assume e: "\<forall>e\<in>set events. random_in_range e" and c: "c \<in> set (optimizedRoutes (demo_run events))"
  show "1 \<le> totalPassengers c" using demo_run_bounded [OF e] c by blast
  show "totalPassengers c \<le> 16" using demo_run_bounded [OF e] c by blast
next
  fix c assume e: "\<forall>e\<in>set events. random_in_range e"
    and c: "c \<in> set (simulateRLOptimization_live rnd
                       (filter (\<lambda>r. rr_status r = Pending) (rideRequests (demo_run events))))"
  have p: "\<forall>r\<in>set (filter (\<lambda>r. rr_status r = Pending) (rideRequests (demo_run events))).
             1 \<le> rr_passengers r \<and> rr_passengers r \<le> 4"
    using demo_run_bounded [OF e] by simp
  show "1 \<le> lc_totalPassengers c" using live_bounded [OF p c] by blast
  show "lc_totalPassengers c \<le> 16" using live_bounded [OF p c] by blast
next
  assume h: "distinct (map req_id newRequests) \<and> newRequests \<noteq> []
        \<and> (\<forall>r\<in>set newRequests.
              getDistance (lat (destination (hd newRequests))) (lng (destination (hd newRequests)))
                          (lat (destination r)) (lng (destination r)) < 20)"
  then show s: "submit_clusters newRequests = [newRequests]"
    using submit_single_cluster [of newRequests] by blast
  show "map r_passengers (build_routes osrm ids (submit_clusters newRequests))
                = [sum_list (map passengers newRequests)]"
    unfolding s by (rule build_routes_single)
qed

lemma run_sample_demo_trace:
  "map rr_passengers (rideRequests (demo_run sample_demo_trace)) = [4, 1, 3]
   \<and> map rr_status (rideRequests (demo_run sample_demo_trace)) = [Assigned, Assigned, Assigned]
   \<and> map rr_destination (rideRequests (demo_run sample_demo_trace))
       = [demo_kakopetria, demo_kakopetria, demo_kakopetria]
   \<and> map (\<lambda>c. map rr_id (cl_requests c)) (optimizedRoutes (demo_run sample_demo_trace))
       = [[''a'', ''b'', ''c'']]
   \<and> map totalPassengers (optimizedRoutes (demo_run sample_demo_trace)) = [8]"
  by (simp add: demo_run_def sample_demo_trace_def demo_initial_def request_tick_def
        generateRideRequest_def sample_draw_def CYPRUS_villages_def CYPRUS_cities_def
        optimization_effect_def simulateRLOptimization_def make_cluster_def Let_def
        demo_kakopetria_def)

theorem cluster_passenger_bounds_witness:
  "length (cl_requests (hd (simulateRLOptimization sample_random sample_pending))) \<le> 4
   \<and> totalPassengers (hd (simulateRLOptimization sample_random sample_pending)) = 5
   \<and> length (lc_requests (hd (simulateRLOptimization_live sample_random sample_pending))) \<le> 4
   \<and> 1 \<le> rr_passengers (generateRideRequest (sample_draw ''a'' (3 / 4)))
   \<and> rr_passengers (generateRideRequest (sample_draw ''a'' (3 / 4))) \<le> 4
   \<and> map rr_passengers (rideRequests (demo_run sample_demo_trace)) = [4, 1, 3]
   \<and> map totalPassengers (optimizedRoutes (demo_run sample_demo_trace)) = [8]
   \<and> totalPassengers (hd (optimizedRoutes (demo_run sample_demo_trace))) \<le> 16
   \<and> submit_clusters sample_trips = [sample_trips]
   \<and> map r_passengers (build_routes osrm_down (\<lambda>k. ''r'') (submit_clusters sample_trips)) = [40]"
proof -
  let ?S = "simulateRLOptimization sample_random sample_pending"
  let ?L = "simulateRLOptimization_live sample_random sample_pending"
  let ?O = "optimizedRoutes (demo_run sample_demo_trace)"
  note t = cluster_passenger_bounds
    [of sample_random sample_pending "sample_draw ''a'' (3 / 4)" sample_demo_trace sample_trips
        osrm_down "\<lambda>k. ''r''"]
  have "?S \<noteq> []" using sample_pending_clusters [of sample_random] by auto
  then have m: "hd ?S \<in> set ?S" by simp
  have "?L \<noteq> []" using sample_pending_live_clusters [of sample_random] by auto
  then have ml: "hd ?L \<in> set ?L" by simp
  have q: "length (cl_requests (hd ?S)) \<le> 4
      \<and> totalPassengers (hd ?S) = sum_list (map rr_passengers (cl_requests (hd ?S)))"
    using t [THEN conjunct1] m by blast
  have ql: "length (lc_requests (hd ?L)) \<le> 4"
    using t [THEN conjunct2, THEN conjunct1] ml by blast
  have "cl_requests (hd ?S) = hd (map cl_requests ?S)" using \<open>?S \<noteq> []\<close> by (simp add: hd_map)
  then have "cl_requests (hd ?S) = [ride ''a'' demo_kakopetria 2, ride ''c'' demo_platres 3]"
    by (simp add: sample_pending_clusters)
  then have q5: "totalPassengers (hd ?S) = 5" using q by (simp add: ride_def)
  have "unit_interval (gen_passengers (sample_draw ''a'' (3 / 4)))"
    by (simp add: unit_interval_def sample_draw_def)
  then have g: "1 \<le> rr_passengers (generateRideRequest (sample_draw ''a'' (3 / 4)))
      \<and> rr_passengers (generateRideRequest (sample_draw ''a'' (3 / 4))) \<le> 4"
    using t [THEN conjunct2, THEN conjunct2, THEN conjunct2, THEN conjunct2, THEN conjunct1]
    by blast
  have e: "\<forall>e\<in>set sample_demo_trace. random_in_range e"
    by (simp add: sample_demo_trace_def sample_draw_def unit_interval_def)
  have d: "\<forall>c\<in>set ?O. 1 \<le> totalPassengers c \<and> totalPassengers c \<le> 16"
    using t [THEN conjunct2, THEN conjunct2, THEN conjunct2, THEN conjunct2, THEN conjunct2,
             THEN conjunct1] e
    by blast
  have "?O \<noteq> []" using run_sample_demo_trace by auto
  then have "hd ?O \<in> set ?O" by simp
  then have d16: "totalPassengers (hd ?O) \<le> 16" using d by blast
  have h: "distinct (map req_id sample_trips) \<and> sample_trips \<noteq> []
        \<and> (\<forall>r\<in>set sample_trips.
              getDistance (lat (destination (hd sample_trips))) (lng (destination (hd sample_trips)))
                          (lat (destination r)) (lng (destination r)) < 20)"
    by (simp add: sample_trips_def trip_def getDistance_same)
  have s: "submit_clusters sample_trips = [sample_trips]
      \<and> map r_passengers (build_routes osrm_down (\<lambda>k. ''r'') (submit_clusters sample_trips))
          = [sum_list (map passengers sample_trips)]"
    using t [THEN conjunct2, THEN conjunct2, THEN conjunct2, THEN conjunct2, THEN conjunct2,
             THEN conjunct2] h
    by blast
  have f: "sum_list (map passengers sample_trips) = 40" by (simp add: sample_trips_def trip_def)
  have s40: "map r_passengers (build_routes osrm_down (\<lambda>k. ''r'') (submit_clusters sample_trips))
          = [40]"
    using s [THEN conjunct2] unfolding f .
  show ?thesis using q q5 ql g run_sample_demo_trace d16 s s40 by blast
qed

section \<open>A session evaluated\<close>

lemma run_append: "run (es @ es') = foldl (\<lambda>s e. step e s) (run es) es'"
  by (simp add: run_def)

lemma increments:
  "foldl (\<lambda>s e. step e s) s (replicate n Increment)
     = (if n = 0 then s else s \<lparr> st_passengers := min 20 (st_passengers s + int n) \<rparr>)"
proof (induction n arbitrary: s)
  case 0
  show ?case by simp
next
  case (Suc n)
  show ?case
    by (cases "n = 0") (simp_all add: Suc.IH increment_passengers_def min_def)
qed

lemma run_sample_trace:
  "st_requests (run sample_trace) = sample_trips
   \<and> st_routes (run sample_trace)
       = build_routes osrm_down (\<lambda>k. ''r'') (submit_clusters sample_trips)
   \<and> stats_total (run sample_trace) = 2"
  by (simp add: sample_trace_def first_trace_def second_selection_def run_def increments initial_state_def marker_click_def
        submitRequest_def sample_env_def sample_trips_def trip_def map_nicosia_def
        map_kakopetria_def map_limassol_def Let_def)

text \<open>
  C3, as the specification states it, fails in the map application: two requests of twenty
  passengers each to the same destination, entered through the handlers, form one cluster
  and one route of forty passengers, twice the capacity of the Bus class.
\<close>

theorem cluster_exceeds_bus_capacity:
  "st_requests (run sample_trace) = sample_trips
   \<and> submit_clusters sample_trips = [sample_trips]
   \<and> sum_list (map passengers sample_trips) = 40
   \<and> map r_passengers (st_routes (run sample_trace)) = [40]
   \<and> capacity VEHICLES_large = 20"
  by (simp add: run_sample_trace sample_trips_clusters build_routes_def build_route_passengers
        VEHICLES_large_def)
     (simp add: sample_trips_def trip_def)

section \<open>Vehicle selection\<close>





section \<open>The request counter and the effect of a submission\<close>

lemma submitRequest_effective:
  assumes "st_pickup s = Some p" "st_destination s = Some d"
  shows "submitRequest env s =
     s \<lparr> st_requests := st_requests s @ [\<lparr> req_id = env_request_id env, pickup = p,
            destination = d, passengers = st_passengers s, req_time = env_time env \<rparr>],
         stats_total := stats_total s + 1,
         st_routes := build_routes (env_osrm env) (env_route_id env)
            (submit_clusters (st_requests s @ [\<lparr> req_id = env_request_id env, pickup = p,
               destination = d, passengers = st_passengers s, req_time = env_time env \<rparr>])),
         stats_co2 := stats_co2 s + foldl (\<lambda>sum r. sum + r_co2 r) 0
            (build_routes (env_osrm env) (env_route_id env)
              (submit_clusters (st_requests s @ [\<lparr> req_id = env_request_id env, pickup = p,
                 destination = d, passengers = st_passengers s, req_time = env_time env \<rparr>]))),
         st_pickup := None, st_destination := None, st_passengers := 1, isLoading := False \<rparr>"
  using assms by (simp add: submitRequest_def Let_def)

lemma submitRequest_idle:
  "st_pickup s = None \<or> st_destination s = None \<Longrightarrow> submitRequest env s = s"
  by (auto simp: submitRequest_def split: option.splits)

lemma submitRequest_total:
  "stats_total (submitRequest env s)
     = (if st_pickup s = None \<or> st_destination s = None then stats_total s
        else stats_total s + 1)"
  by (auto simp: submitRequest_def Let_def split: option.splits)

lemma step_total:
  "e \<noteq> ClearAll \<Longrightarrow> stats_total s \<le> stats_total (step e s)"
  by (cases e)
     (simp_all add: submitRequest_total marker_click_def decrement_passengers_def
        increment_passengers_def clear_selection_def split: option.splits)

lemma step_total_other:
  "e \<noteq> ClearAll \<Longrightarrow> (\<forall>env. e \<noteq> Submit env) \<Longrightarrow> stats_total (step e s) = stats_total s"
  by (cases e)
     (simp_all add: marker_click_def decrement_passengers_def
        increment_passengers_def clear_selection_def split: option.splits)

lemma handleRequestRide_total:
  "totalRequests (demo_stats (handleRequestRide renv ds))
     = (if selectedOrigin ds = None \<or> selectedDestination ds = None
        then totalRequests (demo_stats ds) else totalRequests (demo_stats ds) + 1)"
  by (auto simp: handleRequestRide_def Let_def split: option.splits)

text \<open>
  C9, as the code has it. A submission with pickup and destination set raises
  \<open>stats.total\<close> by one; a submission without them changes nothing; every other handler
  except \<open>clearAll\<close> leaves the counter as it is; \<open>clearAll\<close> sets it back to zero. In the
  demo, \<open>handleRequestRide\<close> raises \<open>totalRequests\<close> by one when both ends are selected
  and leaves it alone otherwise.
\<close>

theorem total_counter_steps:
  "(st_pickup s \<noteq> None \<and> st_destination s \<noteq> None \<longrightarrow>
      stats_total (step (Submit env) s) = stats_total s + 1)
   \<and> (st_pickup s = None \<or> st_destination s = None \<longrightarrow> step (Submit env) s = s)
   \<and> (e \<noteq> ClearAll \<longrightarrow> stats_total s \<le> stats_total (step e s))
   \<and> (e \<noteq> ClearAll \<and> (\<forall>env'. e \<noteq> Submit env') \<longrightarrow> stats_total (step e s) = stats_total s)
   \<and> stats_total (step ClearAll s) = 0
   \<and> totalRequests (demo_stats (handleRequestRide renv ds))
       = (if selectedOrigin ds = None \<or> selectedDestination ds = None
          then totalRequests (demo_stats ds) else totalRequests (demo_stats ds) + 1)"
  using step_total [of e s] step_total_other [of e s] submitRequest_idle [of s env]
  by (simp add: submitRequest_total clearAll_def handleRequestRide_total)

lemma run_before_second:
  "st_pickup (run (first_trace @ second_selection)) = Some map_limassol
   \<and> st_destination (run (first_trace @ second_selection)) = Some map_kakopetria
   \<and> st_passengers (run (first_trace @ second_selection)) = 20
   \<and> st_requests (run (first_trace @ second_selection)) = [trip ''a'' map_nicosia map_kakopetria 20]
   \<and> st_routes (run (first_trace @ second_selection))
       = build_routes osrm_down (\<lambda>k. ''r'')
           (submit_clusters [trip ''a'' map_nicosia map_kakopetria 20])
   \<and> stats_total (run (first_trace @ second_selection)) = 1"
  by (simp add: first_trace_def second_selection_def run_def increments initial_state_def
        marker_click_def submitRequest_def sample_env_def trip_def map_nicosia_def
        map_kakopetria_def map_limassol_def Let_def)

lemma run_snoc: "run (es @ [e]) = step e (run es)"
  by (simp add: run_def)

theorem total_counter_steps_witness:
  "stats_total (step (Submit (sample_env ''b'' osrm_down)) (run (first_trace @ second_selection)))
     = stats_total (run (first_trace @ second_selection)) + 1
   \<and> step (Submit (sample_env ''b'' osrm_down)) initial_state = initial_state
   \<and> stats_total (run (first_trace @ second_selection))
       \<le> stats_total (step Increment (run (first_trace @ second_selection)))
   \<and> stats_total (step ClearSelection (run (first_trace @ second_selection)))
       = stats_total (run (first_trace @ second_selection))"
proof -
  note a = total_counter_steps
    [of "run (first_trace @ second_selection)" "sample_env ''b'' osrm_down" Increment]
  note b = total_counter_steps [of initial_state "sample_env ''b'' osrm_down" ClearSelection]
  note c = total_counter_steps
    [of "run (first_trace @ second_selection)" "sample_env ''b'' osrm_down" ClearSelection]
  have 1: "stats_total (step (Submit (sample_env ''b'' osrm_down)) (run (first_trace @ second_selection)))
     = stats_total (run (first_trace @ second_selection)) + 1"
    using a [THEN conjunct1] run_before_second by simp
  have 2: "step (Submit (sample_env ''b'' osrm_down)) initial_state = initial_state"
    using b [THEN conjunct2, THEN conjunct1] by (simp add: initial_state_def)
  have 3: "stats_total (run (first_trace @ second_selection))
       \<le> stats_total (step Increment (run (first_trace @ second_selection)))"
    using a [THEN conjunct2, THEN conjunct2, THEN conjunct1] by simp
  have 4: "stats_total (step ClearSelection (run (first_trace @ second_selection)))
       = stats_total (run (first_trace @ second_selection))"
    using c [THEN conjunct2, THEN conjunct2, THEN conjunct2, THEN conjunct1] by simp
  show ?thesis using 1 2 3 4 by blast
qed

text \<open>
  C9, as the specification states it, fails: after two submissions the counter stands at two, and
  \<open>clearAll\<close> brings it down to zero.
\<close>

theorem clearAll_resets_total:
  "stats_total (run sample_trace) = 2
   \<and> stats_total (run (sample_trace @ [ClearAll])) = 0
   \<and> stats_total (run (sample_trace @ [ClearAll])) < stats_total (run sample_trace)"
  by (simp add: run_snoc run_sample_trace clearAll_def)

lemma build_routes_ids_from:
  "map route_id (map (\<lambda>(k, cluster). build_route osrm (ids k) cluster) (enumerate n clusters))
     = map ids [n..<n + length clusters]"
proof (induction clusters arbitrary: n)
  case Nil
  show ?case by simp
next
  case (Cons c cs)
  have "[n..<n + length (c # cs)] = n # [Suc n..<Suc n + length cs]"
    by (simp add: upt_rec)
  then show ?case using Cons.IH [of "Suc n"] by (simp add: build_route_def Let_def)
qed

lemma build_routes_ids:
  "map route_id (build_routes osrm ids clusters) = map ids [0..<length clusters]"
  using build_routes_ids_from [of osrm ids 0 clusters] by (simp add: build_routes_def)

lemma step_requests_extend:
  "e \<noteq> ClearAll \<Longrightarrow> \<exists>new. st_requests (step e s) = st_requests s @ new"
proof (cases e)
  case (Submit env)
  show ?thesis
  proof (cases "st_pickup s = None \<or> st_destination s = None")
    case True
    then show ?thesis using Submit by (simp add: submitRequest_idle)
  next
    case False
    then obtain p d where "st_pickup s = Some p" "st_destination s = Some d" by auto
    then show ?thesis using Submit by (simp add: submitRequest_effective)
  qed
qed (simp_all add: marker_click_def decrement_passengers_def increment_passengers_def
       clear_selection_def split: option.splits)

lemma step_requests_kept:
  "e \<noteq> ClearAll \<Longrightarrow> (\<forall>env. e \<noteq> Submit env)
     \<Longrightarrow> st_requests (step e s) = st_requests s \<and> st_routes (step e s) = st_routes s"
  by (cases e)
     (simp_all add: marker_click_def decrement_passengers_def increment_passengers_def
        clear_selection_def split: option.splits)

lemma foldl_requests_extend:
  "ClearAll \<notin> set es
     \<Longrightarrow> \<exists>new. st_requests (foldl (\<lambda>s e. step e s) s es) = st_requests s @ new"
proof (induction es arbitrary: s)
  case Nil
  show ?case by simp
next
  case (Cons e es)
  have e: "e \<noteq> ClearAll" and es: "ClearAll \<notin> set es" using Cons.prems by auto
  obtain n1 where n1: "st_requests (step e s) = st_requests s @ n1"
    using step_requests_extend [OF e] by blast
  obtain n2 where n2: "st_requests (foldl (\<lambda>s e. step e s) (step e s) es)
                         = st_requests (step e s) @ n2"
    using Cons.IH [OF es] by blast
  have "st_requests (foldl (\<lambda>s e. step e s) s (e # es)) = st_requests s @ (n1 @ n2)"
    using n1 n2 by simp
  then show ?case by blast
qed

lemma step_requests_count:
  "e \<noteq> ClearAll
     \<Longrightarrow> length (st_requests (step e s))
           \<le> length (st_requests s) + (if is_submit e then 1 else 0)"
proof (cases e)
  case (Submit env)
  show ?thesis
  proof (cases "st_pickup s = None \<or> st_destination s = None")
    case True
    then show ?thesis using Submit by (simp add: submitRequest_idle)
  next
    case False
    then obtain p d where "st_pickup s = Some p" "st_destination s = Some d" by auto
    then show ?thesis using Submit by (simp add: submitRequest_effective)
  qed
qed (simp_all add: marker_click_def decrement_passengers_def increment_passengers_def
       clear_selection_def split: option.splits)

lemma foldl_requests_count:
  "ClearAll \<notin> set es
     \<Longrightarrow> length (st_requests (foldl (\<lambda>s e. step e s) s es))
           \<le> length (st_requests s) + length (filter is_submit es)"
proof (induction es arbitrary: s)
  case Nil
  show ?case by simp
next
  case (Cons e es)
  have e: "e \<noteq> ClearAll" and es: "ClearAll \<notin> set es" using Cons.prems by auto
  have "length (st_requests (foldl (\<lambda>s e. step e s) (step e s) es))
          \<le> length (st_requests (step e s)) + length (filter is_submit es)"
    by (rule Cons.IH [OF es])
  then show ?case using step_requests_count [OF e, of s] by (cases "is_submit e") simp_all
qed

lemma requests_since_clear:
  assumes "ClearAll \<notin> set es'"
  shows "length (st_requests (run (es @ ClearAll # es'))) \<le> length (filter is_submit es')"
proof -
  have "run (es @ ClearAll # es') = foldl (\<lambda>s e. step e s) (clearAll (run es)) es'"
    by (simp add: run_def)
  moreover have "st_requests (clearAll (run es)) = []" by (simp add: clearAll_def)
  ultimately show ?thesis using foldl_requests_count [OF assms, of "clearAll (run es)"] by simp
qed

text \<open>
  C10, as the code has it. A call of \<open>submitRequest\<close> with pickup and destination set appends
  the new request to the accumulated list, clusters the whole list again and replaces
  \<open>routes\<close> by the routes built from those clusters: the routes' request groups are the
  clusters of the whole list, their identifiers are freshly drawn, the routes published
  before play no part (any previous value of \<open>routes\<close> gives the same result), and, the
  identifiers being distinct, every request of the list lies in exactly one of the new
  routes. The list only grows as long as \<open>clearAll\<close> is not used: no other handler removes
  a request, and only a submission changes the list or the routes. \<open>clearAll\<close> empties
  both, so the list that a submission clusters holds requests submitted since the last
  \<open>clearAll\<close> only: at most one for every press of the submit button since then.
\<close>

theorem submit_reclusters_everything:
  "(st_pickup s = Some p \<and> st_destination s = Some d \<longrightarrow>
     st_requests (submitRequest env s)
       = st_requests s @ [\<lparr> req_id = env_request_id env, pickup = p, destination = d,
                            passengers = st_passengers s, req_time = env_time env \<rparr>]
     \<and> st_routes (submitRequest env s)
         = build_routes (env_osrm env) (env_route_id env)
             (submit_clusters (st_requests (submitRequest env s)))
     \<and> map r_requests (st_routes (submitRequest env s))
         = submit_clusters (st_requests (submitRequest env s))
     \<and> map route_id (st_routes (submitRequest env s))
         = map (env_route_id env) [0..<length (submit_clusters (st_requests (submitRequest env s)))]
     \<and> st_routes (submitRequest env (s \<lparr> st_routes := previous \<rparr>))
         = st_routes (submitRequest env s)
     \<and> (distinct (map req_id (st_requests (submitRequest env s))) \<longrightarrow>
          mset (concat (map r_requests (st_routes (submitRequest env s))))
            = mset (st_requests (submitRequest env s))))
   \<and> (ClearAll \<notin> set es \<longrightarrow>
        (\<exists>new. st_requests (foldl (\<lambda>s e. step e s) s es) = st_requests s @ new))
   \<and> (e \<noteq> ClearAll \<and> (\<forall>env'. e \<noteq> Submit env') \<longrightarrow>
        st_requests (step e s) = st_requests s \<and> st_routes (step e s) = st_routes s)
   \<and> st_requests (step ClearAll s) = []
   \<and> st_routes (step ClearAll s) = []
   \<and> (ClearAll \<notin> set es' \<longrightarrow>
        length (st_requests (run (es @ ClearAll # es'))) \<le> length (filter is_submit es'))"
proof (intro conjI impI)
  assume h: "st_pickup s = Some p \<and> st_destination s = Some d"
  let ?new = "\<lparr> req_id = env_request_id env, pickup = p, destination = d,
                 passengers = st_passengers s, req_time = env_time env \<rparr>"
  have r: "st_requests (submitRequest env s) = st_requests s @ [?new]"
    using h by (simp add: submitRequest_effective)
  have t: "st_routes (submitRequest env s)
         = build_routes (env_osrm env) (env_route_id env) (submit_clusters (st_requests s @ [?new]))"
    using h by (simp add: submitRequest_effective)
  have t': "st_routes (submitRequest env (s \<lparr> st_routes := previous \<rparr>))
         = build_routes (env_osrm env) (env_route_id env) (submit_clusters (st_requests s @ [?new]))"
    using h by (simp add: submitRequest_effective)
  show "st_requests (submitRequest env s) = st_requests s @ [?new]" by (rule r)
  show "st_routes (submitRequest env s)
         = build_routes (env_osrm env) (env_route_id env)
             (submit_clusters (st_requests (submitRequest env s)))"
    unfolding r t ..
  show "map r_requests (st_routes (submitRequest env s))
         = submit_clusters (st_requests (submitRequest env s))"
    unfolding r t by (simp only: build_routes_requests)
  show "map route_id (st_routes (submitRequest env s))
         = map (env_route_id env) [0..<length (submit_clusters (st_requests (submitRequest env s)))]"
    unfolding r t by (simp only: build_routes_ids)
  show "st_routes (submitRequest env (s \<lparr> st_routes := previous \<rparr>))
         = st_routes (submitRequest env s)"
    unfolding t t' ..
  assume "distinct (map req_id (st_requests (submitRequest env s)))"
  then have "mset (concat (submit_clusters (st_requests s @ [?new]))) = mset (st_requests s @ [?new])"
    using grouping_partition [of req_id "st_requests s @ [?new]" submit_admit]
    unfolding r by (simp only: submit_clusters_grouping)
  then show "mset (concat (map r_requests (st_routes (submitRequest env s))))
            = mset (st_requests (submitRequest env s))"
    unfolding r t by (simp only: build_routes_requests)
next
  assume "ClearAll \<notin> set es"
  then show "\<exists>new. st_requests (foldl (\<lambda>s e. step e s) s es) = st_requests s @ new"
    by (rule foldl_requests_extend)
next
  assume h: "e \<noteq> ClearAll \<and> (\<forall>env'. e \<noteq> Submit env')"
  then show "st_requests (step e s) = st_requests s" using step_requests_kept [of e s] by blast
  show "st_routes (step e s) = st_routes s" using h step_requests_kept [of e s] by blast
next
  show "st_requests (step ClearAll s) = []" by (simp add: clearAll_def)
next
  show "st_routes (step ClearAll s) = []" by (simp add: clearAll_def)
next
  assume "ClearAll \<notin> set es'"
  then show "length (st_requests (run (es @ ClearAll # es'))) \<le> length (filter is_submit es')"
    by (rule requests_since_clear)
qed

theorem submit_reclusters_everything_witness:
  "st_requests (run (first_trace @ second_selection)) = [trip ''a'' map_nicosia map_kakopetria 20]
   \<and> st_requests (submitRequest (sample_env ''b'' osrm_down) (run (first_trace @ second_selection)))
       = sample_trips
   \<and> map r_requests
        (st_routes (submitRequest (sample_env ''b'' osrm_down) (run (first_trace @ second_selection))))
       = [sample_trips]
   \<and> map route_id
        (st_routes (submitRequest (sample_env ''b'' osrm_down) (run (first_trace @ second_selection))))
       = [''r'']
   \<and> mset (concat (map r_requests
        (st_routes (submitRequest (sample_env ''b'' osrm_down) (run (first_trace @ second_selection))))))
       = mset sample_trips
   \<and> (\<exists>new. st_requests (foldl (\<lambda>s e. step e s) (run first_trace) second_selection)
               = st_requests (run first_trace) @ new)
   \<and> st_requests (step Increment (run first_trace)) = st_requests (run first_trace)
   \<and> st_routes (step Increment (run first_trace)) = st_routes (run first_trace)
   \<and> length (st_requests (run (second_selection @ ClearAll # third_trace))) \<le> 1"
proof -
  let ?s = "run (first_trace @ second_selection)"
  let ?env = "sample_env ''b'' osrm_down"
  note b = run_before_second
  have h: "st_pickup ?s = Some map_limassol \<and> st_destination ?s = Some map_kakopetria"
    using b by simp
  note t = submit_reclusters_everything
    [of ?s map_limassol map_kakopetria ?env "[]" "[]" Increment "[]",
     THEN conjunct1, rule_format, OF h]
  note u = submit_reclusters_everything
    [of "run first_trace" map_limassol map_kakopetria ?env "[]" second_selection Increment
        third_trace,
     THEN conjunct2]
  have r: "st_requests (submitRequest ?env ?s) = sample_trips"
    using t [THEN conjunct1] b by (simp add: sample_env_def sample_trips_def trip_def)
  have c: "map r_requests (st_routes (submitRequest ?env ?s)) = [sample_trips]"
    using t [THEN conjunct2, THEN conjunct2, THEN conjunct1]
    by (simp only: r sample_trips_clusters)
  have i: "map route_id (st_routes (submitRequest ?env ?s)) = [''r'']"
    using t [THEN conjunct2, THEN conjunct2, THEN conjunct2, THEN conjunct1]
    by (simp only: r sample_trips_clusters) (simp add: sample_env_def)
  have "distinct (map req_id (st_requests (submitRequest ?env ?s)))"
    by (simp only: r) (simp add: sample_trips_def trip_def)
  then have m: "mset (concat (map r_requests (st_routes (submitRequest ?env ?s)))) = mset sample_trips"
    using t [THEN conjunct2, THEN conjunct2, THEN conjunct2, THEN conjunct2, THEN conjunct2]
    by (simp only: r)
  have "ClearAll \<notin> set second_selection" by (simp add: second_selection_def)
  then have g: "\<exists>new. st_requests (foldl (\<lambda>s e. step e s) (run first_trace) second_selection)
               = st_requests (run first_trace) @ new"
    using u [THEN conjunct1] by blast
  have "Increment \<noteq> ClearAll \<and> (\<forall>env'. Increment \<noteq> Submit env')" by simp
  then have k: "st_requests (step Increment (run first_trace)) = st_requests (run first_trace)
      \<and> st_routes (step Increment (run first_trace)) = st_routes (run first_trace)"
    using u [THEN conjunct2, THEN conjunct1] by blast
  have "ClearAll \<notin> set third_trace" by (simp add: third_trace_def)
  then have "length (st_requests (run (second_selection @ ClearAll # third_trace)))
               \<le> length (filter is_submit third_trace)"
    using u [THEN conjunct2, THEN conjunct2, THEN conjunct2, THEN conjunct2] by blast
  then have n: "length (st_requests (run (second_selection @ ClearAll # third_trace))) \<le> 1"
    by (simp add: third_trace_def)
  show ?thesis using b r c i m g k n by blast
qed

lemma run_after_clear:
  "st_requests (run (sample_trace @ ClearAll # third_trace)) = [trip ''c'' map_nicosia map_limassol 1]
   \<and> map r_requests (st_routes (run (sample_trace @ ClearAll # third_trace)))
       = [[trip ''c'' map_nicosia map_limassol 1]]"
proof -
  have "run (sample_trace @ ClearAll # third_trace)
          = foldl (\<lambda>s e. step e s) (clearAll (run sample_trace)) third_trace"
    by (simp add: run_def)
  moreover have "st_pickup (clearAll (run sample_trace)) = None
      \<and> st_destination (clearAll (run sample_trace)) = None
      \<and> st_requests (clearAll (run sample_trace)) = []
      \<and> st_passengers (clearAll (run sample_trace)) = st_passengers (run sample_trace)"
    by (simp add: clearAll_def)
  moreover have "st_passengers (run sample_trace) = 1"
    using run_before_second
    by (simp add: sample_trace_def run_snoc [of "first_trace @ second_selection", simplified]
        submitRequest_effective)
  ultimately show ?thesis
    by (simp add: third_trace_def marker_click_def submitRequest_def sample_env_def trip_def
        map_nicosia_def map_limassol_def Let_def build_routes_requests submit_clusters_def)
qed

text \<open>
  C10, as the specification states it, fails: requests are removed from the pool by
  \<open>clearAll\<close>. After two submissions the list holds two requests; \<open>clearAll\<close> empties the
  list and the routes; the next submission clusters the new request alone, and the two
  earlier requests appear in no route.
\<close>

theorem clearAll_empties_the_request_pool:
  "st_requests (run sample_trace) = sample_trips
   \<and> st_requests (run (sample_trace @ [ClearAll])) = []
   \<and> st_routes (run (sample_trace @ [ClearAll])) = []
   \<and> st_requests (run (sample_trace @ ClearAll # third_trace))
       = [trip ''c'' map_nicosia map_limassol 1]
   \<and> map r_requests (st_routes (run (sample_trace @ ClearAll # third_trace)))
       = [[trip ''c'' map_nicosia map_limassol 1]]"
  using run_after_clear
  by (simp add: run_snoc run_sample_trace clearAll_def)

section \<open>Submissions are checked by the handlers, not by the submission\<close>

lemma sound_initial: "sound_state initial_state"
  by (simp add: sound_state_def initial_state_def valid_selection_def)

lemma sound_marker_click: "sound_state s \<Longrightarrow> sound_state (marker_click loc s)"
  by (auto simp: sound_state_def marker_click_def valid_selection_def split: option.splits)

lemma sound_submit: "sound_state s \<Longrightarrow> sound_state (submitRequest env s)"
  by (auto simp: sound_state_def submitRequest_def valid_selection_def valid_request_def Let_def
      split: option.splits)

lemma sound_step: "sound_state s \<Longrightarrow> sound_state (step e s)"
proof (cases e)
  case (MarkerClick loc)
  assume "sound_state s"
  then show ?thesis using MarkerClick by (simp add: sound_marker_click)
next
  case Decrement
  assume "sound_state s"
  then show ?thesis using Decrement by (simp add: sound_state_def decrement_passengers_def)
next
  case Increment
  assume "sound_state s"
  then show ?thesis using Increment by (simp add: sound_state_def increment_passengers_def)
next
  case (Submit env)
  assume "sound_state s"
  then show ?thesis using Submit by (simp add: sound_submit)
next
  case ClearSelection
  assume "sound_state s"
  then show ?thesis using ClearSelection
    by (simp add: sound_state_def clear_selection_def valid_selection_def)
next
  case ClearAll
  assume "sound_state s"
  then show ?thesis using ClearAll by (simp add: sound_state_def clearAll_def valid_selection_def)
qed

lemma sound_foldl: "sound_state s \<Longrightarrow> sound_state (foldl (\<lambda>s e. step e s) s events)"
  by (induction events arbitrary: s) (simp_all add: sound_step)

lemma sound_run: "sound_state (run events)"
  unfolding run_def by (rule sound_foldl [OF sound_initial])

lemma handleRequestRide_effective:
  "selectedOrigin ds = Some orig \<Longrightarrow> selectedDestination ds = Some dest \<Longrightarrow>
     rideRequests (handleRequestRide renv ds)
       = rideRequests ds @ [\<lparr> rr_id = ride_id renv, rr_origin = orig, rr_destination = dest,
                              rr_passengers = 1, rr_timestamp = ride_now renv,
                              rr_status = Pending, rr_eta = ride_eta renv \<rparr>]
     \<and> totalRequests (demo_stats (handleRequestRide renv ds)) = totalRequests (demo_stats ds) + 1"
  by (simp add: handleRequestRide_def Let_def)

lemma handleRequestRide_idle:
  "selectedOrigin ds = None \<or> selectedDestination ds = None \<Longrightarrow> handleRequestRide renv ds = ds"
  by (auto simp: handleRequestRide_def split: option.splits)

text \<open>
  C6, as the code has it. Neither application validates a submission or raises an error,
  and neither returns the new request: every call evaluates to \<open>undefined\<close>.
  \<open>submitRequest\<close> leaves the state alone when pickup or destination is unset; otherwise it
  appends exactly one request (which has no status) built from the current selection and
  passenger count, and counts it. That passengers lie between 1 and 20 and that pickup and
  destination differ is ensured beforehand by the handlers: it holds of the form state
  and of every stored request after any sequence of user actions. \<open>handleRequestRide\<close>
  likewise does nothing unless both ends are selected, and otherwise appends one request
  with status \<open>pending\<close> and one passenger.
\<close>

theorem submission_without_validation:
  "(st_pickup s = None \<or> st_destination s = None \<longrightarrow> submitRequest env s = s)
   \<and> (st_pickup s = Some p \<and> st_destination s = Some d \<longrightarrow>
        st_requests (submitRequest env s)
          = st_requests s @ [\<lparr> req_id = env_request_id env, pickup = p, destination = d,
                               passengers = st_passengers s, req_time = env_time env \<rparr>]
        \<and> stats_total (submitRequest env s) = stats_total s + 1)
   \<and> sound_state (run events)
   \<and> (selectedOrigin ds = None \<or> selectedDestination ds = None \<longrightarrow>
        handleRequestRide renv ds = ds)
   \<and> (selectedOrigin ds = Some orig \<and> selectedDestination ds = Some dest \<longrightarrow>
        rideRequests (handleRequestRide renv ds)
          = rideRequests ds @ [\<lparr> rr_id = ride_id renv, rr_origin = orig, rr_destination = dest,
                                 rr_passengers = 1, rr_timestamp = ride_now renv,
                                 rr_status = Pending, rr_eta = ride_eta renv \<rparr>]
        \<and> totalRequests (demo_stats (handleRequestRide renv ds))
            = totalRequests (demo_stats ds) + 1)
   \<and> fst (submitRequest_call env s) = Undefined
   \<and> snd (submitRequest_call env s) = submitRequest env s
   \<and> fst (handleRequestRide_call renv ds) = Undefined
   \<and> snd (handleRequestRide_call renv ds) = handleRequestRide renv ds"
proof (intro conjI impI)
  assume "st_pickup s = None \<or> st_destination s = None"
  then show "submitRequest env s = s" by (rule submitRequest_idle)
next
  assume h: "st_pickup s = Some p \<and> st_destination s = Some d"
  then show "st_requests (submitRequest env s)
          = st_requests s @ [\<lparr> req_id = env_request_id env, pickup = p, destination = d,
                               passengers = st_passengers s, req_time = env_time env \<rparr>]"
    by (simp add: submitRequest_effective)
  show "stats_total (submitRequest env s) = stats_total s + 1"
    using h by (simp add: submitRequest_total)
next
  show "sound_state (run events)" by (rule sound_run)
next
  assume "selectedOrigin ds = None \<or> selectedDestination ds = None"
  then show "handleRequestRide renv ds = ds" by (rule handleRequestRide_idle)
next
  assume h: "selectedOrigin ds = Some orig \<and> selectedDestination ds = Some dest"
  then show "rideRequests (handleRequestRide renv ds)
          = rideRequests ds @ [\<lparr> rr_id = ride_id renv, rr_origin = orig, rr_destination = dest,
                                 rr_passengers = 1, rr_timestamp = ride_now renv,
                                 rr_status = Pending, rr_eta = ride_eta renv \<rparr>]"
    using handleRequestRide_effective [of ds orig dest renv] by blast
  show "totalRequests (demo_stats (handleRequestRide renv ds)) = totalRequests (demo_stats ds) + 1"
    using h handleRequestRide_effective [of ds orig dest renv] by blast
next
  show "fst (submitRequest_call env s) = Undefined" by (simp add: submitRequest_call_def)
next
  show "snd (submitRequest_call env s) = submitRequest env s"
    using submitRequest_idle [of s env] by (simp add: submitRequest_call_def)
next
  show "fst (handleRequestRide_call renv ds) = Undefined"
    by (simp add: handleRequestRide_call_def)
next
  show "snd (handleRequestRide_call renv ds) = handleRequestRide renv ds"
    using handleRequestRide_idle [of ds renv] by (auto simp: handleRequestRide_call_def)
qed

theorem submission_without_validation_witness:
  "submitRequest (sample_env ''b'' osrm_down) initial_state = initial_state
   \<and> st_requests (submitRequest (sample_env ''b'' osrm_down) (run (first_trace @ second_selection)))
       = sample_trips
   \<and> stats_total (submitRequest (sample_env ''b'' osrm_down) (run (first_trace @ second_selection)))
       = 2
   \<and> list_all valid_request (st_requests (run sample_trace))
   \<and> handleRequestRide sample_ride_env
        (demo_selected \<lparr> selectedOrigin := None \<rparr>) = demo_selected \<lparr> selectedOrigin := None \<rparr>
   \<and> map rr_status (rideRequests (handleRequestRide sample_ride_env demo_selected)) = [Pending]
   \<and> map rr_passengers (rideRequests (handleRequestRide sample_ride_env demo_selected)) = [1]
   \<and> totalRequests (demo_stats (handleRequestRide sample_ride_env demo_selected)) = 1"
proof -
  let ?s = "run (first_trace @ second_selection)"
  let ?env = "sample_env ''b'' osrm_down"
  note a = submission_without_validation
    [of initial_state ?env map_limassol map_kakopetria sample_trace
        "demo_selected \<lparr> selectedOrigin := None \<rparr>" sample_ride_env demo_nicosia demo_kakopetria]
  note b = submission_without_validation
    [of ?s ?env map_limassol map_kakopetria sample_trace
        demo_selected sample_ride_env demo_nicosia demo_kakopetria]
  have 1: "submitRequest ?env initial_state = initial_state"
    using a [THEN conjunct1] by (simp add: initial_state_def)
  have 2: "st_requests (submitRequest ?env ?s) = sample_trips
      \<and> stats_total (submitRequest ?env ?s) = 2"
    using b [THEN conjunct2, THEN conjunct1] run_before_second
    by (simp add: sample_env_def sample_trips_def trip_def)
  have 3: "list_all valid_request (st_requests (run sample_trace))"
    using b [THEN conjunct2, THEN conjunct2, THEN conjunct1] by (simp add: sound_state_def)
  have 4: "handleRequestRide sample_ride_env (demo_selected \<lparr> selectedOrigin := None \<rparr>)
             = demo_selected \<lparr> selectedOrigin := None \<rparr>"
    using a [THEN conjunct2, THEN conjunct2, THEN conjunct2, THEN conjunct1] by simp
  have 5: "rideRequests (handleRequestRide sample_ride_env demo_selected)
          = rideRequests demo_selected @ [\<lparr> rr_id = ride_id sample_ride_env, rr_origin = demo_nicosia,
               rr_destination = demo_kakopetria,
               rr_passengers = 1, rr_timestamp = ride_now sample_ride_env,
               rr_status = Pending, rr_eta = ride_eta sample_ride_env \<rparr>]
        \<and> totalRequests (demo_stats (handleRequestRide sample_ride_env demo_selected))
            = totalRequests (demo_stats demo_selected) + 1"
    using b [THEN conjunct2, THEN conjunct2, THEN conjunct2, THEN conjunct2, THEN conjunct1]
    by (simp add: demo_selected_def)
  have 6: "map rr_status (rideRequests (handleRequestRide sample_ride_env demo_selected)) = [Pending]
     \<and> map rr_passengers (rideRequests (handleRequestRide sample_ride_env demo_selected)) = [1]
     \<and> totalRequests (demo_stats (handleRequestRide sample_ride_env demo_selected)) = 1"
    using 5 by (simp add: demo_selected_def)
  show ?thesis using 1 2 3 4 6 by blast
qed

lemma run_valid_form:
  "st_pickup (run valid_form) = Some map_nicosia
   \<and> st_destination (run valid_form) = Some map_kakopetria
   \<and> st_passengers (run valid_form) = 1
   \<and> st_requests (run valid_form) = []"
  by (simp add: run_def valid_form_def initial_state_def marker_click_def map_nicosia_def
      map_kakopetria_def)

text \<open>
  C6, as the specification states it, fails on a valid submission. One passenger from Nicosia
  to Kakopetria, entered through the handlers of the map application: the request is
  stored, without a status, and the call returns \<open>undefined\<close>, not the request. In the demo
  the request stored by \<open>handleRequestRide\<close> is pending, and again nothing is returned.
\<close>

theorem valid_submission_returns_nothing:
  "st_pickup (run valid_form) = Some map_nicosia
   \<and> st_destination (run valid_form) = Some map_kakopetria
   \<and> st_passengers (run valid_form) = 1
   \<and> loc_id map_nicosia \<noteq> loc_id map_kakopetria
   \<and> st_requests (snd (submitRequest_call (sample_env ''a'' osrm_down) (run valid_form)))
       = [\<lparr> req_id = ''a'', pickup = map_nicosia, destination = map_kakopetria,
            passengers = 1, req_time = ''10:00:00'' \<rparr>]
   \<and> fst (submitRequest_call (sample_env ''a'' osrm_down) (run valid_form)) = Undefined
   \<and> fst (submitRequest_call (sample_env ''a'' osrm_down) (run valid_form))
       \<noteq> Returned (last (st_requests
                     (snd (submitRequest_call (sample_env ''a'' osrm_down) (run valid_form)))))
   \<and> selectedOrigin (demo_run [SelectOrigin demo_nicosia, SelectDestination demo_kakopetria])
       = Some demo_nicosia
   \<and> selectedDestination (demo_run [SelectOrigin demo_nicosia, SelectDestination demo_kakopetria])
       = Some demo_kakopetria
   \<and> map rr_status
        (rideRequests (snd (handleRequestRide_call sample_ride_env
           (demo_run [SelectOrigin demo_nicosia, SelectDestination demo_kakopetria]))))
       = [Pending]
   \<and> fst (handleRequestRide_call sample_ride_env
           (demo_run [SelectOrigin demo_nicosia, SelectDestination demo_kakopetria]))
       = Undefined"
proof -
  have a: "st_requests (snd (submitRequest_call (sample_env ''a'' osrm_down) (run valid_form)))
       = [\<lparr> req_id = ''a'', pickup = map_nicosia, destination = map_kakopetria,
            passengers = 1, req_time = ''10:00:00'' \<rparr>]"
    using run_valid_form
    by (simp add: submitRequest_call_def submitRequest_effective sample_env_def)
  have b: "loc_id map_nicosia \<noteq> loc_id map_kakopetria"
    by (simp add: map_nicosia_def map_kakopetria_def)
  have c: "rideRequests (snd (handleRequestRide_call sample_ride_env
           (demo_run [SelectOrigin demo_nicosia, SelectDestination demo_kakopetria])))
       = [\<lparr> rr_id = ''u'', rr_origin = demo_nicosia, rr_destination = demo_kakopetria,
            rr_passengers = 1, rr_timestamp = 0, rr_status = Pending, rr_eta = 7 \<rparr>]"
    by (simp add: handleRequestRide_call_def handleRequestRide_def demo_run_def demo_initial_def
        sample_ride_env_def Let_def)
  have d: "selectedOrigin (demo_run [SelectOrigin demo_nicosia, SelectDestination demo_kakopetria])
       = Some demo_nicosia
   \<and> selectedDestination (demo_run [SelectOrigin demo_nicosia, SelectDestination demo_kakopetria])
       = Some demo_kakopetria"
    by (simp add: demo_run_def demo_initial_def)
  show ?thesis
    using run_valid_form a b d
    by (simp add: c) (simp add: submitRequest_call_def handleRequestRide_call_def)
qed

section \<open>The fallback distance is the sum of the segment lengths\<close>

lemma straight_line_fold:
  "straight_line_distance ss = foldl (\<lambda>sum i. if i = 0 then 0 else sum + segment ss i) 0 [0..<length ss]"
  by (simp add: straight_line_distance_def segment_def cong: if_cong)

lemma foldl_segments_cong:
  "\<forall>i\<in>set is. 0 < i \<longrightarrow> segment ss i = segment ss' i
     \<Longrightarrow> foldl (\<lambda>sum i. if i = 0 then 0 else sum + segment ss i) a is
           = foldl (\<lambda>sum i. if i = 0 then 0 else sum + segment ss' i) a is"
  by (induction "is" arbitrary: a) simp_all

lemma segment_butlast: "0 < i \<Longrightarrow> i < length xs \<Longrightarrow> segment (xs @ [x]) i = segment xs i"
proof -
  assume "0 < i" "i < length xs"
  then have "i - 1 < length xs" by arith
  then show ?thesis using \<open>i < length xs\<close> by (simp add: segment_def nth_append)
qed

lemma straight_line_snoc:
  "straight_line_distance (xs @ [x])
     = (if xs = [] then 0
        else straight_line_distance xs
               + getDistance (lat (last xs)) (lng (last xs)) (lat x) (lng x))"
proof (cases "xs = []")
  case True
  then show ?thesis by (simp add: straight_line_distance_def)
next
  case False
  have c: "foldl (\<lambda>sum i. if i = 0 then 0 else sum + segment (xs @ [x]) i) 0 [0..<length xs]
             = foldl (\<lambda>sum i. if i = 0 then 0 else sum + segment xs i) 0 [0..<length xs]"
    by (rule foldl_segments_cong) (simp add: segment_butlast)
  have l: "segment (xs @ [x]) (length xs)
             = getDistance (lat (last xs)) (lng (last xs)) (lat x) (lng x)"
    using False by (simp add: segment_def nth_append last_conv_nth)
  have "straight_line_distance (xs @ [x])
          = foldl (\<lambda>sum i. if i = 0 then 0 else sum + segment (xs @ [x]) i) 0
              ([0..<length xs] @ [length xs])"
    by (simp add: straight_line_fold)
  also have "\<dots> = foldl (\<lambda>sum i. if i = 0 then 0 else sum + segment xs i) 0 [0..<length xs]
                    + segment (xs @ [x]) (length xs)"
    using False by (simp only: foldl_append c) simp
  finally show ?thesis using False by (simp add: straight_line_fold l)
qed

lemma haversine_path_snoc:
  "haversine_path (xs @ [x])
     = (if xs = [] then 0
        else haversine_path xs + getDistance (lat (last xs)) (lng (last xs)) (lat x) (lng x))"
  by (induction xs rule: haversine_path.induct) simp_all

lemma straight_line_is_haversine_path: "straight_line_distance ss = haversine_path ss"
proof (induction ss rule: rev_induct)
  case Nil
  show ?case by (simp add: straight_line_distance_def)
next
  case (snoc x xs)
  then show ?case by (simp only: straight_line_snoc haversine_path_snoc)
qed

lemma haversine_path_nonneg: "list_all on_globe ss \<Longrightarrow> 0 \<le> haversine_path ss"
proof (induction ss rule: haversine_path.induct)
  case (1 a b rest)
  have "0 \<le> getDistance (lat a) (lng a) (lat b) (lng b)"
    using "1.prems" by (intro getDistance_nonneg) (simp_all add: on_globe_def)
  moreover have "0 \<le> haversine_path (b # rest)" using 1 by simp
  ultimately show ?case by simp
qed simp_all

lemma haversine_path_pos:
  "list_all on_globe ss \<Longrightarrow> \<not> coincident ss \<Longrightarrow> 0 < haversine_path ss"
proof (induction ss rule: haversine_path.induct)
  case (1 a b rest)
  have rest: "0 \<le> haversine_path (b # rest)"
    using "1.prems"(1) by (intro haversine_path_nonneg) simp
  have g: "on_globe a" "on_globe b" using "1.prems"(1) by simp_all
  show ?case
  proof (cases "lat a = lat b \<and> lng a = lng b")
    case True
    then have "\<not> coincident (b # rest)" using "1.prems"(2) by (simp add: coincident_def)
    then have "0 < haversine_path (b # rest)" using "1.IH" "1.prems"(1) by simp
    moreover have "0 \<le> getDistance (lat a) (lng a) (lat b) (lng b)"
      using g by (intro getDistance_nonneg) (simp_all add: on_globe_def)
    ultimately show ?thesis by simp
  next
    case False
    have "0 < getDistance (lat a) (lng a) (lat b) (lng b)"
      using g False by (intro getDistance_pos) (auto simp: on_globe_def)
    then show ?thesis using rest by simp
  qed
next
  case (2 a)
  then show ?case by (simp add: coincident_def)
next
  case 3
  then show ?case by (simp add: coincident_def)
qed

lemma fetchRoute_failure:
  "osrm (map (\<lambda>s. (lng s, lat s)) ss) = Throws
     \<or> (\<exists>code rs. osrm (map (\<lambda>s. (lng s, lat s)) ss) = Json code rs \<and> (code \<noteq> ''Ok'' \<or> rs = []))
     \<Longrightarrow> fetchRoute osrm ss = None"
  by (auto simp: fetchRoute_def Let_def)

section \<open>Emission figures\<close>

lemma build_route_co2:
  "r_co2 (build_route osrm rid cluster)
     = toFixed1 (max 0 (of_int (r_passengers (build_route osrm rid cluster))
                          * route_dist (fetchRoute osrm (route_stops cluster)) (route_stops cluster)
                          * 0.21
                        - route_dist (fetchRoute osrm (route_stops cluster)) (route_stops cluster)
                          * co2 (r_vehicle (build_route osrm rid cluster))))"
  by (simp add: build_route_def Let_def)

text \<open>
  C5, as the code has it. The figure a route of the map application carries is
  \<open>max(0, passengers * dist * 0.21 - dist * vehicle.co2)\<close> formatted by \<open>toFixed(1)\<close>: it is
  the multiple of one tenth nearest to that value, within 0.05 of it, and never negative;
  \<open>dist\<close> is the provider's distance in kilometres, or the fallback distance when the
  provider failed. A cluster of \<open>simulateRLOptimization\<close>, in either version, carries
  \<open>2.5\<close> times its number of requests, formatted the same way, which is never negative
  either.
\<close>

theorem co2_figure_of_a_route:
  "r_co2 (build_route osrm rid cluster)
     = toFixed1 (max 0 (of_int (r_passengers (build_route osrm rid cluster))
                          * route_dist (fetchRoute osrm (route_stops cluster)) (route_stops cluster)
                          * 0.21
                        - route_dist (fetchRoute osrm (route_stops cluster)) (route_stops cluster)
                          * co2 (r_vehicle (build_route osrm rid cluster))))
   \<and> \<bar>r_co2 (build_route osrm rid cluster)
        - max 0 (of_int (r_passengers (build_route osrm rid cluster))
                          * route_dist (fetchRoute osrm (route_stops cluster)) (route_stops cluster)
                          * 0.21
                        - route_dist (fetchRoute osrm (route_stops cluster)) (route_stops cluster)
                          * co2 (r_vehicle (build_route osrm rid cluster)))\<bar> \<le> 1 / 20
   \<and> 0 \<le> r_co2 (build_route osrm rid cluster)
   \<and> (\<forall>c\<in>set (simulateRLOptimization rnd reqs).
        co2Saved c = toFixed1 (real (length (cl_requests c)) * 2.5) \<and> 0 \<le> co2Saved c)
   \<and> (\<forall>c\<in>set (simulateRLOptimization_live rnd reqs).
        lc_co2Saved c = toFixed1 (real (length (lc_requests c)) * 2.5) \<and> 0 \<le> lc_co2Saved c)"
proof (intro conjI ballI)
  show "r_co2 (build_route osrm rid cluster)
     = toFixed1 (max 0 (of_int (r_passengers (build_route osrm rid cluster))
                          * route_dist (fetchRoute osrm (route_stops cluster)) (route_stops cluster)
                          * 0.21
                        - route_dist (fetchRoute osrm (route_stops cluster)) (route_stops cluster)
                          * co2 (r_vehicle (build_route osrm rid cluster))))"
    by (rule build_route_co2)
  show "\<bar>r_co2 (build_route osrm rid cluster)
        - max 0 (of_int (r_passengers (build_route osrm rid cluster))
                          * route_dist (fetchRoute osrm (route_stops cluster)) (route_stops cluster)
                          * 0.21
                        - route_dist (fetchRoute osrm (route_stops cluster)) (route_stops cluster)
                          * co2 (r_vehicle (build_route osrm rid cluster)))\<bar> \<le> 1 / 20"
    by (simp only: build_route_co2 toFixed1_close)
  show "0 \<le> r_co2 (build_route osrm rid cluster)"
    by (simp only: build_route_co2) (rule toFixed1_nonneg, simp)
next
  fix c assume c: "c \<in> set (simulateRLOptimization rnd reqs)"
  show e: "co2Saved c = toFixed1 (real (length (cl_requests c)) * 2.5)"
    using c by (rule sim_co2Saved)
  show "0 \<le> co2Saved c" unfolding e by (rule toFixed1_nonneg) simp
next
  fix c assume c: "c \<in> set (simulateRLOptimization_live rnd reqs)"
  show e: "lc_co2Saved c = toFixed1 (real (length (lc_requests c)) * 2.5)"
    using c by (rule live_co2Saved)
  show "0 \<le> lc_co2Saved c" unfolding e by (rule toFixed1_nonneg) simp
qed

lemma one_km_route:
  "r_passengers (build_route osrm_one_km ''r'' [trip ''a'' map_nicosia map_kakopetria 1]) = 1
   \<and> r_vehicle (build_route osrm_one_km ''r'' [trip ''a'' map_nicosia map_kakopetria 1])
       = VEHICLES_small
   \<and> route_dist (fetchRoute osrm_one_km (route_stops [trip ''a'' map_nicosia map_kakopetria 1]))
        (route_stops [trip ''a'' map_nicosia map_kakopetria 1]) = 1
   \<and> r_distance (build_route osrm_one_km ''r'' [trip ''a'' map_nicosia map_kakopetria 1]) = 1"
  by (simp add: build_route_def trip_def route_stops_def new_Map_def map_values_def
      fetchRoute_def osrm_one_km_def route_dist_def selectVehicle_def toFixed1_def Let_def)

theorem co2_figure_of_a_route_witness:
  "r_co2 (build_route osrm_one_km ''r'' [trip ''a'' map_nicosia map_kakopetria 1]) = 1 / 10
   \<and> 0 \<le> r_co2 (build_route osrm_one_km ''r'' [trip ''a'' map_nicosia map_kakopetria 1])
   \<and> co2Saved (hd (simulateRLOptimization sample_random sample_pending)) = 5
   \<and> lc_co2Saved (hd (simulateRLOptimization_live sample_random sample_pending)) = 5"
proof -
  let ?S = "simulateRLOptimization sample_random sample_pending"
  note t = co2_figure_of_a_route
    [of osrm_one_km "''r''" "[trip ''a'' map_nicosia map_kakopetria 1]" sample_random sample_pending]
  have 1: "r_co2 (build_route osrm_one_km ''r'' [trip ''a'' map_nicosia map_kakopetria 1]) = 1 / 10"
    using t [THEN conjunct1]
    by (simp only: one_km_route) (simp add: VEHICLES_small_def toFixed1_def)
  have 2: "0 \<le> r_co2 (build_route osrm_one_km ''r'' [trip ''a'' map_nicosia map_kakopetria 1])"
    using t [THEN conjunct2, THEN conjunct2, THEN conjunct1] .
  have "?S \<noteq> []" using sample_pending_clusters [of sample_random] by auto
  then have m: "hd ?S \<in> set ?S" by simp
  have "cl_requests (hd ?S) = hd (map cl_requests ?S)" using \<open>?S \<noteq> []\<close> by (simp add: hd_map)
  then have l: "length (cl_requests (hd ?S)) = 2" by (simp add: sample_pending_clusters)
  have "co2Saved (hd ?S) = toFixed1 (real (length (cl_requests (hd ?S))) * 2.5)"
    using t [THEN conjunct2, THEN conjunct2, THEN conjunct2, THEN conjunct1] m by blast
  then have 3: "co2Saved (hd ?S) = 5" by (simp add: l toFixed1_def)
  let ?L = "simulateRLOptimization_live sample_random sample_pending"
  have "?L \<noteq> []" using sample_pending_live_clusters [of sample_random] by auto
  then have ml: "hd ?L \<in> set ?L" by simp
  have "lc_requests (hd ?L) = hd (map lc_requests ?L)" using \<open>?L \<noteq> []\<close> by (simp add: hd_map)
  then have ll: "length (lc_requests (hd ?L)) = 2" by (simp add: sample_pending_live_clusters)
  have "lc_co2Saved (hd ?L) = toFixed1 (real (length (lc_requests (hd ?L))) * 2.5)"
    using t [THEN conjunct2, THEN conjunct2, THEN conjunct2, THEN conjunct2] ml by blast
  then have 4: "lc_co2Saved (hd ?L) = 5" by (simp add: ll toFixed1_def)
  show ?thesis using 1 2 3 4 by blast
qed

text \<open>
  C5, as the specification states it, fails: one passenger over one kilometre in a Mini
  Van saves \<open>0.21 - 0.15 = 0.06\<close> kg, and the route carries \<open>0.1\<close>. In the demo a cluster of
  one request carries \<open>2.5\<close>, be it for one passenger or for four.
\<close>

theorem published_co2_is_rounded:
  "r_passengers (build_route osrm_one_km ''r'' [trip ''a'' map_nicosia map_kakopetria 1]) = 1
   \<and> r_vehicle (build_route osrm_one_km ''r'' [trip ''a'' map_nicosia map_kakopetria 1])
       = VEHICLES_small
   \<and> r_distance (build_route osrm_one_km ''r'' [trip ''a'' map_nicosia map_kakopetria 1]) = 1
   \<and> max 0 (1 * 1 * 0.21 - 1 * co2 VEHICLES_small) = (6 / 100 :: real)
   \<and> r_co2 (build_route osrm_one_km ''r'' [trip ''a'' map_nicosia map_kakopetria 1]) = 1 / 10
   \<and> r_co2 (build_route osrm_one_km ''r'' [trip ''a'' map_nicosia map_kakopetria 1])
       \<noteq> max 0 (1 * 1 * 0.21 - 1 * co2 VEHICLES_small)
   \<and> map co2Saved (simulateRLOptimization sample_random [ride ''a'' demo_kakopetria 1]) = [5 / 2]
   \<and> map co2Saved (simulateRLOptimization sample_random [ride ''a'' demo_kakopetria 4]) = [5 / 2]"
  by (simp add: one_km_route build_route_co2)
     (simp add: VEHICLES_small_def toFixed1_def simulateRLOptimization_def make_cluster_def)

section \<open>Routes built without the provider\<close>

lemma build_route_failed:
  assumes "fetchRoute osrm (route_stops cluster) = None"
  shows "stops (build_route osrm rid cluster) = route_stops cluster
     \<and> r_geometry (build_route osrm rid cluster) = None
     \<and> r_distance (build_route osrm rid cluster) = toFixed1 (haversine_path (route_stops cluster))
     \<and> r_time (build_route osrm rid cluster)
         = js_round (haversine_path (route_stops cluster) / 45 * 60)"
  using assms
  by (simp add: build_route_def Let_def route_dist_def straight_line_is_haversine_path)

text \<open>
  C4, as the code has it. When the provider call fails (it throws, answers with a code
  other than \<open>Ok\<close>, or with no route), \<open>fetchRoute\<close> returns \<open>null\<close> and the route is built
  all the same: its stops are the cluster's stops, its geometry is \<open>null\<close> (no straight
  line is synthesised), its distance is the sum of the haversine lengths of the
  consecutive stop segments formatted by \<open>toFixed(1)\<close>, and its time is that sum at 45 km/h
  in minutes, rounded to the nearest integer. The sum itself is positive whenever the
  stops, away from the poles, are not all on the same coordinates.
\<close>

theorem route_on_provider_failure:
  "(osrm (map (\<lambda>s. (lng s, lat s)) (route_stops cluster)) = Throws
      \<or> (\<exists>code rs. osrm (map (\<lambda>s. (lng s, lat s)) (route_stops cluster)) = Json code rs
            \<and> (code \<noteq> ''Ok'' \<or> rs = []))
    \<longrightarrow> fetchRoute osrm (route_stops cluster) = None)
   \<and> (fetchRoute osrm (route_stops cluster) = None \<longrightarrow>
        stops (build_route osrm rid cluster) = route_stops cluster
        \<and> r_geometry (build_route osrm rid cluster) = None
        \<and> r_distance (build_route osrm rid cluster)
            = toFixed1 (haversine_path (route_stops cluster))
        \<and> r_time (build_route osrm rid cluster)
            = js_round (haversine_path (route_stops cluster) / 45 * 60))
   \<and> (list_all on_globe (route_stops cluster) \<and> \<not> coincident (route_stops cluster)
        \<longrightarrow> 0 < haversine_path (route_stops cluster))"
  using fetchRoute_failure [of osrm "route_stops cluster"] build_route_failed [of osrm cluster rid]
    haversine_path_pos [of "route_stops cluster"]
  by blast

lemma sample_stops:
  "route_stops [trip ''a'' map_nicosia map_kakopetria 1] = [map_nicosia, map_kakopetria]"
  by (simp add: route_stops_def trip_def new_Map_def map_values_def map_nicosia_def
      map_kakopetria_def)

theorem route_on_provider_failure_witness:
  "fetchRoute osrm_down (route_stops [trip ''a'' map_nicosia map_kakopetria 1]) = None
   \<and> stops (build_route osrm_down ''r'' [trip ''a'' map_nicosia map_kakopetria 1])
       = [map_nicosia, map_kakopetria]
   \<and> r_geometry (build_route osrm_down ''r'' [trip ''a'' map_nicosia map_kakopetria 1]) = None
   \<and> r_distance (build_route osrm_down ''r'' [trip ''a'' map_nicosia map_kakopetria 1])
       = toFixed1 (getDistance (lat map_nicosia) (lng map_nicosia)
                               (lat map_kakopetria) (lng map_kakopetria))
   \<and> 0 < haversine_path [map_nicosia, map_kakopetria]"
proof -
  note t = route_on_provider_failure
    [of osrm_down "[trip ''a'' map_nicosia map_kakopetria 1]" "''r''"]
  have f: "fetchRoute osrm_down (route_stops [trip ''a'' map_nicosia map_kakopetria 1]) = None"
    using t [THEN conjunct1] by (simp add: osrm_down_def)
  have r: "stops (build_route osrm_down ''r'' [trip ''a'' map_nicosia map_kakopetria 1])
             = [map_nicosia, map_kakopetria]
     \<and> r_geometry (build_route osrm_down ''r'' [trip ''a'' map_nicosia map_kakopetria 1]) = None
     \<and> r_distance (build_route osrm_down ''r'' [trip ''a'' map_nicosia map_kakopetria 1])
         = toFixed1 (getDistance (lat map_nicosia) (lng map_nicosia)
                                 (lat map_kakopetria) (lng map_kakopetria))"
    using t [THEN conjunct2, THEN conjunct1] f by (simp add: sample_stops)
  have "list_all on_globe [map_nicosia, map_kakopetria]"
    by (simp add: on_globe_def map_nicosia_def map_kakopetria_def)
  moreover have "\<not> coincident [map_nicosia, map_kakopetria]"
    by (simp add: coincident_def map_nicosia_def map_kakopetria_def)
  ultimately have p: "0 < haversine_path [map_nicosia, map_kakopetria]"
    using t [THEN conjunct2, THEN conjunct2] by (simp add: sample_stops)
  show ?thesis using f r p by blast
qed

text \<open>
  C4, as the specification states it, fails: with the provider down, the route from Nicosia to
  Kakopetria has two stops and the geometry \<open>null\<close>, not the sequence of their coordinates.
\<close>

theorem failed_route_has_no_geometry:
  "fetchRoute osrm_down (route_stops [trip ''a'' map_nicosia map_kakopetria 1]) = None
   \<and> stops (build_route osrm_down ''r'' [trip ''a'' map_nicosia map_kakopetria 1])
       = [map_nicosia, map_kakopetria]
   \<and> r_geometry (build_route osrm_down ''r'' [trip ''a'' map_nicosia map_kakopetria 1]) = None
   \<and> r_geometry (build_route osrm_down ''r'' [trip ''a'' map_nicosia map_kakopetria 1])
       \<noteq> Some (map (\<lambda>s. (lng s, lat s))
                 (stops (build_route osrm_down ''r'' [trip ''a'' map_nicosia map_kakopetria 1])))"
proof -
  have f: "fetchRoute osrm_down (route_stops [trip ''a'' map_nicosia map_kakopetria 1]) = None"
    by (simp add: fetchRoute_def osrm_down_def)
  then show ?thesis using build_route_failed [OF f, of "''r''"] by (simp add: sample_stops)
qed

end
